theory Spec2Isabelle
  imports Main
begin

section \<open>The Go library the file store is written against\<close>

text \<open>
  The store of \<^verbatim>\<open>store/file/file_store.go\<close> keeps five files per session and an
  in-memory cache. Bytes are \<^typ>\<open>char\<close>, a byte slice and a Go string are both
  \<^typ>\<open>string\<close>. Go's \<^verbatim>\<open>int\<close> and \<^verbatim>\<open>int64\<close> are taken as 64-bit: values are
  \<^typ>\<open>int\<close>, and the places where the width shows (parsing, incrementing) write the
  bounds out.
\<close>

type_synonym bytes = string

definition maxInt :: int where
  "maxInt = 9223372036854775807"

definition minInt :: int where
  "minInt = - 9223372036854775808"

definition isInt :: "int \<Rightarrow> bool" where
  "isInt n \<longleftrightarrow> minInt \<le> n \<and> n \<le> maxInt"

definition wrapInt :: "int \<Rightarrow> int" where
  \<comment> \<open>two's complement wrap-around of a 64-bit addition\<close>
  "wrapInt x = (x + 9223372036854775808) mod 18446744073709551616 - 9223372036854775808"

subsection \<open>Errors\<close>

datatype io_op = OpMkdir | OpOpen | OpRead | OpWrite | OpSeek | OpSync | OpClose | OpRemove

datatype error =
    EOF
  | ErrUnexpectedEOF
  | ErrInvalid
  | ErrNotExist
  | ScanError string
  | NumError
  | IOError io_op string
  | Errorf string string error
  | Wrap string error
  | Panic string

text \<open>
  \<^const>\<open>EOF\<close> and \<^const>\<open>ErrUnexpectedEOF\<close> are \<^verbatim>\<open>io.EOF\<close> and \<^verbatim>\<open>io.ErrUnexpectedEOF\<close>,
  \<^const>\<open>ErrInvalid\<close> is what a method of a nil \<^verbatim>\<open>*os.File\<close> returns, \<^const>\<open>ScanError\<close> is an
  error of package \<^verbatim>\<open>fmt\<close>'s scanner, \<^const>\<open>NumError\<close> one of \<^verbatim>\<open>strconv\<close>.
  \<^term>\<open>Errorf msg fname e\<close> is \<^verbatim>\<open>fmt.Errorf("msg: %s: %s", fname, e.Error())\<close>,
  \<^term>\<open>Wrap msg e\<close> is \<^verbatim>\<open>errors.Wrap(e, msg)\<close>, and \<^const>\<open>Panic\<close> is a run-time panic
  (a nil pointer dereference, a negative slice length), which ends the call.
\<close>

subsection \<open>Printing integers: \<^verbatim>\<open>%d\<close> and \<^verbatim>\<open>%019d\<close>\<close>

definition digitChar :: "nat \<Rightarrow> char" where
  "digitChar d = ''0123456789'' ! d"

fun decimal :: "nat \<Rightarrow> string" where
  "decimal n = (if n < 10 then [digitChar n] else decimal (n div 10) @ [digitChar (n mod 10)])"

declare decimal.simps [simp del]

definition fmt_d :: "int \<Rightarrow> string" where
  "fmt_d n = (if n < 0 then CHR ''-'' # decimal (nat (- n)) else decimal (nat n))"

definition zeroPad :: "nat \<Rightarrow> string \<Rightarrow> string" where
  "zeroPad k s = replicate (k - length s) CHR ''0'' @ s"

definition fmt_019d :: "int \<Rightarrow> string" where
  \<comment> \<open>zero padding to width 19; a sign takes one of the 19 places\<close>
  "fmt_019d n =
     (if n < 0 then CHR ''-'' # zeroPad 18 (decimal (nat (- n))) else zeroPad 19 (decimal (nat n)))"

definition headerLine :: "int \<Rightarrow> int \<Rightarrow> int \<Rightarrow> string" where
  \<comment> \<open>\<^verbatim>\<open>fmt.Sprintf("%d,%d,%d\n", seqNum, offset, size)\<close>\<close>
  "headerLine seqNum off sz =
     fmt_d seqNum @ CHR '','' # fmt_d off @ CHR '','' # fmt_d sz @ [CHR 0x0A]"

subsection \<open>Parsing integers: \<^verbatim>\<open>strconv\<close>\<close>

definition isDigit :: "char \<Rightarrow> bool" where
  "isDigit c \<longleftrightarrow> c \<in> set ''0123456789''"

definition digitVal :: "char \<Rightarrow> nat" where
  \<comment> \<open>\<^verbatim>\<open>c - '0'\<close>, for a digit \<open>c\<close>\<close>
  "digitVal c = of_char c - 48"

definition decimalVal :: "string \<Rightarrow> nat" where
  "decimalVal ds = foldl (\<lambda>a c. 10 * a + digitVal c) 0 ds"

definition ParseInt :: "string \<Rightarrow> int option" where
  \<comment> \<open>\<^verbatim>\<open>strconv.ParseInt(s, 10, 64)\<close>: an optional sign, then one or more digits, in range\<close>
  "ParseInt s =
     (case s of
        [] \<Rightarrow> None
      | c # cs \<Rightarrow>
          let neg = (c = CHR ''-'');
              ds = (if c = CHR ''+'' \<or> c = CHR ''-'' then cs else s)
          in if ds = [] \<or> \<not> list_all isDigit ds then None
             else let un = int (decimalVal ds)
                  in if \<not> neg \<and> un \<ge> 9223372036854775808 then None
                     else if neg \<and> un > 9223372036854775808 then None
                     else Some (if neg then - un else un))"

definition Atoi :: "string \<Rightarrow> int option" where
  \<comment> \<open>\<^verbatim>\<open>strconv.Atoi\<close> is \<^verbatim>\<open>ParseInt(s, 10, 0)\<close> converted to \<^verbatim>\<open>int\<close>\<close>
  "Atoi s = ParseInt s"

definition Trim :: "string \<Rightarrow> string \<Rightarrow> string" where
  \<comment> \<open>\<^verbatim>\<open>strings.Trim(s, cutset)\<close>\<close>
  "Trim s cutset = rev (dropWhile (\<lambda>c. c \<in> set cutset) (rev (dropWhile (\<lambda>c. c \<in> set cutset) s)))"

subsection \<open>Scanning: \<^verbatim>\<open>fmt.Fscanf(r, "%d,%d,%d\n", &seqNum, &offset, &size)\<close>\<close>

text \<open>
  The scanner works on the bytes that are left in the reader. Every byte is read as one
  rune: the header file holds ASCII, and a byte above \<^verbatim>\<open>0x7f\<close> is neither a digit, a
  sign, a comma nor (alone) a space.
\<close>

definition isSpace :: "char \<Rightarrow> bool" where
  "isSpace r \<longleftrightarrow> r \<in> set [CHR '' '', CHR 0x09, CHR 0x0A, CHR 0x0B, CHR 0x0C, CHR 0x0D]"

fun SkipSpace :: "string \<Rightarrow> error + string" where
  "SkipSpace [] = Inr []"
| "SkipSpace (r # rs) =
     (if r = CHR 0x0D \<and> (case rs of [] \<Rightarrow> False | r' # _ \<Rightarrow> r' = CHR 0x0A) then SkipSpace rs
      else if r = CHR 0x0A then Inl (ScanError ''unexpected newline'')
      else if \<not> isSpace r then Inr (r # rs)
      else SkipSpace rs)"

definition accept :: "string \<Rightarrow> string \<Rightarrow> string \<times> string" where
  \<comment> \<open>one rune of the set \<open>ok\<close>, if it is next: the token read and the rest\<close>
  "accept ok inp =
     (case inp of [] \<Rightarrow> ([], []) | r # rs \<Rightarrow> if r \<in> set ok then ([r], rs) else ([], inp))"

definition decimalDigits :: string where
  "decimalDigits = ''0123456789_''"

definition scanNumber :: "string \<Rightarrow> error + (string \<times> string)" where
  "scanNumber inp =
     (if inp = [] then Inl EOF
      else if hd inp \<notin> set decimalDigits then Inl (ScanError ''expected integer'')
      else Inr (takeWhile (\<lambda>r. r \<in> set decimalDigits) inp,
                dropWhile (\<lambda>r. r \<in> set decimalDigits) inp))"

definition scanInt :: "string \<Rightarrow> error + (int \<times> string)" where
  "scanInt inp =
     (case SkipSpace inp of
        Inl e \<Rightarrow> Inl e
      | Inr i1 \<Rightarrow>
          if i1 = [] then Inl EOF
          else let (sgn, i2) = accept ''+-'' i1
               in case scanNumber i2 of
                    Inl e \<Rightarrow> Inl e
                  | Inr (digs, rest) \<Rightarrow>
                      (case ParseInt (sgn @ digs) of
                         None \<Rightarrow> Inl NumError
                       | Some i \<Rightarrow> Inr (i, rest)))"

definition scanVerb_d :: "string \<Rightarrow> error + (int \<times> string)" where
  \<comment> \<open>one \<^verbatim>\<open>%d\<close> of the format: \<^verbatim>\<open>doScanf\<close> skips space, then \<^verbatim>\<open>scanOne\<close> scans the integer\<close>
  "scanVerb_d inp = (case SkipSpace inp of Inl e \<Rightarrow> Inl e | Inr i1 \<Rightarrow> scanInt i1)"

definition scanLiteral :: "char \<Rightarrow> string \<Rightarrow> error + string" where
  "scanLiteral c inp =
     (case inp of
        [] \<Rightarrow> Inl ErrUnexpectedEOF
      | r # rs \<Rightarrow> if r = c then Inr rs else Inl (ScanError ''input does not match format''))"

definition scanNewline :: "string \<Rightarrow> error + string" where
  \<comment> \<open>a newline in the format: spaces, then a newline or the end of the input\<close>
  "scanNewline inp =
     (case dropWhile (\<lambda>r. isSpace r \<and> r \<noteq> CHR 0x0A) inp of
        [] \<Rightarrow> Inr []
      | r # rs \<Rightarrow>
          if r = CHR 0x0A then Inr rs
          else Inl (ScanError ''newline in format does not match input''))"

definition scanHeader :: "string \<Rightarrow> error + (nat \<times> int \<times> int \<times> int \<times> string)" where
  \<comment> \<open>the error, or the count of items scanned, the three items and the input left\<close>
  "scanHeader inp =
     (case scanVerb_d inp of
        Inl e \<Rightarrow> Inl e
      | Inr (seqNum, i1) \<Rightarrow>
     (case scanLiteral CHR '','' i1 of
        Inl e \<Rightarrow> Inl e
      | Inr i2 \<Rightarrow>
     (case scanVerb_d i2 of
        Inl e \<Rightarrow> Inl e
      | Inr (off, i3) \<Rightarrow>
     (case scanLiteral CHR '','' i3 of
        Inl e \<Rightarrow> Inl e
      | Inr i4 \<Rightarrow>
     (case scanVerb_d i4 of
        Inl e \<Rightarrow> Inl e
      | Inr (sz, i5) \<Rightarrow>
     (case scanNewline i5 of
        Inl e \<Rightarrow> Inl e
      | Inr i6 \<Rightarrow> Inr (3, seqNum, off, sz, i6)))))))"

subsection \<open>Files\<close>

text \<open>
  The world outside the process: the files by path, the wall clock that \<^verbatim>\<open>time.Now()\<close>
  reads, and the system calls that fail. A fault is an operation on a path; it stays as
  it is during one call of the store and may differ from call to call. File modes and
  directories are not part of the model, and a failing write writes nothing.
\<close>

record world =
  fs :: "string \<rightharpoonup> bytes"
  clock :: int
  faults :: "(io_op \<times> string) set"

text \<open>An open \<^verbatim>\<open>*os.File\<close> is its path and its offset; \<^const>\<open>None\<close> is the nil pointer.\<close>

record osFile =
  Name :: string
  pos :: nat

definition ReadFile :: "world \<Rightarrow> string \<Rightarrow> error + bytes" where
  "ReadFile w name =
     (if (OpRead, name) \<in> faults w then Inl (IOError OpRead name)
      else case fs w name of None \<Rightarrow> Inl ErrNotExist | Some c \<Rightarrow> Inr c)"

definition File_SeekStart :: "world \<Rightarrow> osFile option \<Rightarrow> error + osFile" where
  \<comment> \<open>\<^verbatim>\<open>f.Seek(0, io.SeekStart)\<close>\<close>
  "File_SeekStart w fo =
     (case fo of
        None \<Rightarrow> Inl ErrInvalid
      | Some f \<Rightarrow>
          if (OpSeek, Name f) \<in> faults w then Inl (IOError OpSeek (Name f))
          else Inr (f\<lparr>pos := 0\<rparr>))"

definition File_SeekEnd :: "world \<Rightarrow> osFile option \<Rightarrow> error + osFile" where
  \<comment> \<open>\<^verbatim>\<open>f.Seek(0, io.SeekEnd)\<close>; the offset returned is \<^const>\<open>pos\<close> of the result\<close>
  "File_SeekEnd w fo =
     (case fo of
        None \<Rightarrow> Inl ErrInvalid
      | Some f \<Rightarrow>
          if (OpSeek, Name f) \<in> faults w then Inl (IOError OpSeek (Name f))
          else (case fs w (Name f) of
                  None \<Rightarrow> Inl (IOError OpSeek (Name f))
                | Some c \<Rightarrow> Inr (f\<lparr>pos := length c\<rparr>)))"

definition pwrite :: "bytes \<Rightarrow> nat \<Rightarrow> bytes \<Rightarrow> bytes" where
  \<comment> \<open>the content after writing \<open>d\<close> at offset \<open>off\<close>: in place, nothing truncated\<close>
  "pwrite c off d =
     take off c @ replicate (off - length c) (CHR 0x00) @ d @ drop (off + length d) c"

definition File_Write :: "world \<Rightarrow> osFile option \<Rightarrow> bytes \<Rightarrow> error + (world \<times> osFile)" where
  "File_Write w fo d =
     (case fo of
        None \<Rightarrow> Inl ErrInvalid
      | Some f \<Rightarrow>
          if (OpWrite, Name f) \<in> faults w then Inl (IOError OpWrite (Name f))
          else (case fs w (Name f) of
                  None \<Rightarrow> Inl (IOError OpWrite (Name f))
                | Some c \<Rightarrow>
                    Inr (w\<lparr>fs := (fs w)(Name f \<mapsto> pwrite c (pos f) d)\<rparr>,
                         f\<lparr>pos := pos f + length d\<rparr>)))"

definition File_Sync :: "world \<Rightarrow> osFile option \<Rightarrow> error option" where
  "File_Sync w fo =
     (case fo of
        None \<Rightarrow> Some ErrInvalid
      | Some f \<Rightarrow> if (OpSync, Name f) \<in> faults w then Some (IOError OpSync (Name f)) else None)"

definition File_ReadAt :: "world \<Rightarrow> osFile option \<Rightarrow> nat \<Rightarrow> int \<Rightarrow> error + bytes" where
  \<comment> \<open>\<^verbatim>\<open>f.ReadAt(b, off)\<close> for a buffer of \<open>n\<close> bytes: all \<open>n\<close> bytes, or an error\<close>
  "File_ReadAt w fo n off =
     (case fo of
        None \<Rightarrow> Inl ErrInvalid
      | Some f \<Rightarrow>
          if off < 0 then Inl (IOError OpRead (Name f))
          else if n = 0 then Inr []
          else if (OpRead, Name f) \<in> faults w then Inl (IOError OpRead (Name f))
          else (case fs w (Name f) of
                  None \<Rightarrow> Inl (IOError OpRead (Name f))
                | Some c \<Rightarrow>
                    if nat off + n \<le> length c then Inr (take n (drop (nat off) c))
                    else Inl EOF))"

definition Fscanf :: "world \<Rightarrow> osFile \<Rightarrow> osFile \<times> (error + (nat \<times> int \<times> int \<times> int))" where
  \<comment> \<open>\<^verbatim>\<open>fmt.Fscanf(f, "%d,%d,%d\n", ...)\<close> from the offset of \<open>f\<close>, which moves past what was
      scanned. After an error the offset is not used again and is left as it was.\<close>
  "Fscanf w f =
     (if (OpRead, Name f) \<in> faults w then (f, Inl (IOError OpRead (Name f)))
      else (case fs w (Name f) of
              None \<Rightarrow> (f, Inl (IOError OpRead (Name f)))
            | Some c \<Rightarrow>
                (case scanHeader (drop (pos f) c) of
                   Inl e \<Rightarrow> (f, Inl e)
                 | Inr (cnt, seqNum, off, sz, rest) \<Rightarrow>
                     (f\<lparr>pos := length c - length rest\<rparr>, Inr (cnt, seqNum, off, sz)))))"

definition pathJoin :: "string \<Rightarrow> string \<Rightarrow> string" where
  \<comment> \<open>\<^verbatim>\<open>path.Join\<close>; the cleaning of the path is left out, a path is only a key here\<close>
  "pathJoin dir f = dir @ ''/'' @ f"

text \<open>
  Functions the store calls that stay parameters: \<^verbatim>\<open>createFilenamePrefix\<close>, a helper
  of the package that is not in this source file and gives the file name prefix of a
  session, and the text form of \<^verbatim>\<open>time.Time\<close>. A time is an instant, counted on the
  scale of \<^const>\<open>clock\<close>.
\<close>

record 'sid library =
  createFilenamePrefix :: "'sid \<Rightarrow> string"
  MarshalText :: "int \<Rightarrow> error + bytes"
  UnmarshalText :: "bytes \<Rightarrow> error + int"

section \<open>The helpers of the package and the cache\<close>

definition openOrCreateFile :: "world \<Rightarrow> string \<Rightarrow> error + (world \<times> osFile)" where
  \<comment> \<open>Modelled from the spec: \<^verbatim>\<open>openOrCreateFile\<close> is in the package's file utilities, not
      in this source file. It opens the file for reading and writing, "creating if
      absent"; a new file is empty, and the handle starts at offset 0.\<close>
  "openOrCreateFile w fname =
     (if (OpOpen, fname) \<in> faults w
      then Inl (Errorf ''error opening or creating file'' fname (IOError OpOpen fname))
      else (case fs w fname of
              Some c \<Rightarrow> Inr (w, \<lparr>Name = fname, pos = 0\<rparr>)
            | None \<Rightarrow> Inr (w\<lparr>fs := (fs w)(fname \<mapsto> [])\<rparr>, \<lparr>Name = fname, pos = 0\<rparr>)))"


definition closeSyncFile :: "world \<Rightarrow> osFile option \<Rightarrow> error option" where
  \<comment> \<open>Modelled from the spec: \<^verbatim>\<open>closeSyncFile\<close> is in the package's file utilities. It
      flushes and closes the handle and "must tolerate being called when handles are
      already nil".\<close>
  "closeSyncFile w fo =
     (case fo of
        None \<Rightarrow> None
      | Some f \<Rightarrow>
          if (OpSync, Name f) \<in> faults w then Some (IOError OpSync (Name f))
          else if (OpClose, Name f) \<in> faults w then Some (IOError OpClose (Name f))
          else None)"

record memoryStore =
  nextSender :: int
  nextTarget :: int
  created :: int

text \<open>
  The cache is \<^verbatim>\<open>quickfix.NewMemoryStoreFactory().Create(sessionID)\<close>, of the root
  package of the repository and not in this source file. The spec gives its contract: it
  mirrors the creation time and both next sequence numbers, its zero state has both
  counters at 1 and a fresh creation time, and it is "a correct, always-available
  in-memory mirror", so its operations return no error.
\<close>

definition mem_Reset :: "world \<Rightarrow> memoryStore \<Rightarrow> memoryStore \<times> error option" where
  \<comment> \<open>Modelled from the spec: \<^verbatim>\<open>Reset()\<close> of the cache, absent from the source file:
      "counters back to 1 and a brand-new creation time".\<close>
  "mem_Reset w c = (\<lparr>nextSender = 1, nextTarget = 1, created = clock w\<rparr>, None)"

definition mem_Create :: "world \<Rightarrow> memoryStore \<times> error option" where
  \<comment> \<open>Modelled from the spec: the factory of the cache, absent from the source file; "a
      fresh fast-path cache instance" is in the zero state.\<close>
  "mem_Create w = (\<lparr>nextSender = 1, nextTarget = 1, created = clock w\<rparr>, None)"

definition mem_SetCreationTime :: "memoryStore \<Rightarrow> int \<Rightarrow> memoryStore" where
  \<comment> \<open>Modelled from the spec: \<^verbatim>\<open>SetCreationTime(t)\<close> of the cache, absent from the source
      file; \<^verbatim>\<open>CreationTime()\<close> reads \<^const>\<open>created\<close>.\<close>
  "mem_SetCreationTime c t = c\<lparr>created := t\<rparr>"

definition mem_SetNextSenderMsgSeqNum :: "memoryStore \<Rightarrow> int \<Rightarrow> memoryStore \<times> error option" where
  \<comment> \<open>Modelled from the spec: \<^verbatim>\<open>SetNextSenderMsgSeqNum(n)\<close> of the cache, absent from the
      source file; \<^verbatim>\<open>NextSenderMsgSeqNum()\<close> reads \<^const>\<open>nextSender\<close>.\<close>
  "mem_SetNextSenderMsgSeqNum c n = (c\<lparr>nextSender := n\<rparr>, None)"

definition mem_SetNextTargetMsgSeqNum :: "memoryStore \<Rightarrow> int \<Rightarrow> memoryStore \<times> error option" where
  \<comment> \<open>Modelled from the spec: \<^verbatim>\<open>SetNextTargetMsgSeqNum(n)\<close> of the cache, absent from the
      source file; \<^verbatim>\<open>NextTargetMsgSeqNum()\<close> reads \<^const>\<open>nextTarget\<close>.\<close>
  "mem_SetNextTargetMsgSeqNum c n = (c\<lparr>nextTarget := n\<rparr>, None)"

section \<open>The file store\<close>

text \<open>
  The struct \<^verbatim>\<open>fileStore\<close>. The mutex \<^verbatim>\<open>fileMu\<close> is left out: calls are taken one at a
  time. A method with a pointer receiver takes the world and the store and returns both
  with its error (\<^const>\<open>None\<close> is \<^verbatim>\<open>nil\<close>), so that what a failing call leaves behind is
  part of its result.
\<close>

record 'sid fileStore =
  sessionID :: 'sid
  cache :: memoryStore
  bodyFname :: string
  headerFname :: string
  sessionFname :: string
  senderSeqNumsFname :: string
  targetSeqNumsFname :: string
  bodyFile :: "osFile option"
  headerFile :: "osFile option"
  sessionFile :: "osFile option"
  senderSeqNumsFile :: "osFile option"
  targetSeqNumsFile :: "osFile option"
  fileSync :: bool

definition Close :: "world \<Rightarrow> 'sid fileStore \<Rightarrow> 'sid fileStore \<times> error option" where
  "Close w store =
     (case closeSyncFile w (bodyFile store) of
        Some err \<Rightarrow> (store, Some err)
      | None \<Rightarrow>
     (case closeSyncFile w (headerFile store) of
        Some err \<Rightarrow> (store, Some err)
      | None \<Rightarrow>
     (case closeSyncFile w (sessionFile store) of
        Some err \<Rightarrow> (store, Some err)
      | None \<Rightarrow>
     (case closeSyncFile w (senderSeqNumsFile store) of
        Some err \<Rightarrow> (store, Some err)
      | None \<Rightarrow>
     (case closeSyncFile w (targetSeqNumsFile store) of
        Some err \<Rightarrow> (store, Some err)
      | None \<Rightarrow>
          (store\<lparr>bodyFile := None, headerFile := None, sessionFile := None,
                 senderSeqNumsFile := None, targetSeqNumsFile := None\<rparr>, None))))))"

definition populateCache ::
  "'sid library \<Rightarrow> world \<Rightarrow> 'sid fileStore \<Rightarrow> 'sid fileStore \<times> bool \<times> error option" where
  "populateCache lib w store =
     (let (store, creationTimePopulated) =
            (case ReadFile w (sessionFname store) of
               Inl err \<Rightarrow> (store, False)
             | Inr timeBytes \<Rightarrow>
                 (case UnmarshalText lib timeBytes of
                    Inl err \<Rightarrow> (store, False)
                  | Inr ctime \<Rightarrow>
                      (store\<lparr>cache := mem_SetCreationTime (cache store) ctime\<rparr>, True)))
      in
      case (case ReadFile w (senderSeqNumsFname store) of
              Inl err \<Rightarrow> (store, None)
            | Inr senderSeqNumBytes \<Rightarrow>
                (case Atoi (Trim senderSeqNumBytes [CHR 0x0D, CHR 0x0A]) of
                   None \<Rightarrow> (store, None)
                 | Some senderSeqNum \<Rightarrow>
                     (case mem_SetNextSenderMsgSeqNum (cache store) senderSeqNum of
                        (c, err) \<Rightarrow> (store\<lparr>cache := c\<rparr>, err)))) of
        (store, Some err) \<Rightarrow>
          (store, creationTimePopulated, Some (Wrap ''cache set next sender'' err))
      | (store, None) \<Rightarrow>
      case (case ReadFile w (targetSeqNumsFname store) of
              Inl err \<Rightarrow> (store, None)
            | Inr targetSeqNumBytes \<Rightarrow>
                (case Atoi (Trim targetSeqNumBytes [CHR 0x0D, CHR 0x0A]) of
                   None \<Rightarrow> (store, None)
                 | Some targetSeqNum \<Rightarrow>
                     (case mem_SetNextTargetMsgSeqNum (cache store) targetSeqNum of
                        (c, err) \<Rightarrow> (store\<lparr>cache := c\<rparr>, err)))) of
        (store, Some err) \<Rightarrow>
          (store, creationTimePopulated, Some (Wrap ''cache set next target'' err))
      | (store, None) \<Rightarrow> (store, creationTimePopulated, None))"

definition setSession ::
  "'sid library \<Rightarrow> world \<Rightarrow> 'sid fileStore \<Rightarrow> world \<times> 'sid fileStore \<times> error option" where
  "setSession lib w store =
     (case File_SeekStart w (sessionFile store) of
        Inl err \<Rightarrow> (w, store, Some (Errorf ''unable to rewind file'' (sessionFname store) err))
      | Inr f \<Rightarrow>
          let store = store\<lparr>sessionFile := Some f\<rparr> in
          (case MarshalText lib (created (cache store)) of
             Inl err \<Rightarrow>
               (w, store,
                Some (Errorf ''unable to marshal session time to file'' (sessionFname store) err))
           | Inr data \<Rightarrow>
               (case File_Write w (sessionFile store) data of
                  Inl err \<Rightarrow>
                    (w, store, Some (Errorf ''unable to write to file'' (sessionFname store) err))
                | Inr (w, f) \<Rightarrow>
                    let store = store\<lparr>sessionFile := Some f\<rparr> in
                    if fileSync store then
                      (case File_Sync w (sessionFile store) of
                         Some err \<Rightarrow>
                           (w, store,
                            Some (Errorf ''unable to flush file'' (sessionFname store) err))
                       | None \<Rightarrow> (w, store, None))
                    else (w, store, None))))"

definition setSeqNum ::
  "world \<Rightarrow> 'sid fileStore \<Rightarrow> osFile option \<Rightarrow> int \<Rightarrow> world \<times> osFile option \<times> error option" where
  \<comment> \<open>\<open>f\<close> is one of the store's handles; the handle as the call leaves it is returned.
      \<^verbatim>\<open>f.Name()\<close> in an error message dereferences \<open>f\<close>, so a nil \<open>f\<close> panics there.\<close>
  "setSeqNum w store f seqNum =
     (case File_SeekStart w f of
        Inl err \<Rightarrow>
          (case f of
             None \<Rightarrow> (w, f, Some (Panic ''nil pointer dereference''))
           | Some f0 \<Rightarrow> (w, f, Some (Errorf ''unable to rewind file'' (Name f0) err)))
      | Inr f1 \<Rightarrow>
          (case File_Write w (Some f1) (fmt_019d seqNum) of
             Inl err \<Rightarrow> (w, Some f1, Some (Errorf ''unable to write to file'' (Name f1) err))
           | Inr (w, f2) \<Rightarrow>
               if fileSync store then
                 (case File_Sync w (Some f2) of
                    Some err \<Rightarrow> (w, Some f2, Some (Errorf ''unable to flush file'' (Name f2) err))
                  | None \<Rightarrow> (w, Some f2, None))
               else (w, Some f2, None)))"

definition NextSenderMsgSeqNum :: "'sid fileStore \<Rightarrow> int" where
  "NextSenderMsgSeqNum store = nextSender (cache store)"

definition NextTargetMsgSeqNum :: "'sid fileStore \<Rightarrow> int" where
  "NextTargetMsgSeqNum store = nextTarget (cache store)"

definition SetNextSenderMsgSeqNum ::
  "world \<Rightarrow> 'sid fileStore \<Rightarrow> int \<Rightarrow> world \<times> 'sid fileStore \<times> error option" where
  "SetNextSenderMsgSeqNum w store next =
     (case setSeqNum w store (senderSeqNumsFile store) next of
        (w, f, Some err) \<Rightarrow> (w, store\<lparr>senderSeqNumsFile := f\<rparr>, Some (Wrap ''file'' err))
      | (w, f, None) \<Rightarrow>
          let store = store\<lparr>senderSeqNumsFile := f\<rparr> in
          (case mem_SetNextSenderMsgSeqNum (cache store) next of
             (c, err) \<Rightarrow> (w, store\<lparr>cache := c\<rparr>, err)))"

definition SetNextTargetMsgSeqNum ::
  "world \<Rightarrow> 'sid fileStore \<Rightarrow> int \<Rightarrow> world \<times> 'sid fileStore \<times> error option" where
  "SetNextTargetMsgSeqNum w store next =
     (case setSeqNum w store (targetSeqNumsFile store) next of
        (w, f, Some err) \<Rightarrow> (w, store\<lparr>targetSeqNumsFile := f\<rparr>, Some (Wrap ''file'' err))
      | (w, f, None) \<Rightarrow>
          let store = store\<lparr>targetSeqNumsFile := f\<rparr> in
          (case mem_SetNextTargetMsgSeqNum (cache store) next of
             (c, err) \<Rightarrow> (w, store\<lparr>cache := c\<rparr>, err)))"

definition IncrNextSenderMsgSeqNum ::
  "world \<Rightarrow> 'sid fileStore \<Rightarrow> world \<times> 'sid fileStore \<times> error option" where
  "IncrNextSenderMsgSeqNum w store =
     (case SetNextSenderMsgSeqNum w store (wrapInt (nextSender (cache store) + 1)) of
        (w, store, Some err) \<Rightarrow> (w, store, Some (Wrap ''file'' err))
      | (w, store, None) \<Rightarrow> (w, store, None))"

definition IncrNextTargetMsgSeqNum ::
  "world \<Rightarrow> 'sid fileStore \<Rightarrow> world \<times> 'sid fileStore \<times> error option" where
  "IncrNextTargetMsgSeqNum w store =
     (case SetNextTargetMsgSeqNum w store (wrapInt (nextTarget (cache store) + 1)) of
        (w, store, Some err) \<Rightarrow> (w, store, Some (Wrap ''file'' err))
      | (w, store, None) \<Rightarrow> (w, store, None))"

definition CreationTime :: "'sid fileStore \<Rightarrow> int" where
  "CreationTime store = created (cache store)"

definition SetCreationTime :: "world \<Rightarrow> 'sid fileStore \<Rightarrow> int \<Rightarrow> world \<times> 'sid fileStore" where
  \<comment> \<open>"SetCreationTime is a no-op for FileStore."\<close>
  "SetCreationTime w store t = (w, store)"

definition syncBodyAndHeaderFilesLocked :: "world \<Rightarrow> 'sid fileStore \<Rightarrow> error option" where
  "syncBodyAndHeaderFilesLocked w store =
     (case File_Sync w (bodyFile store) of
        Some err \<Rightarrow> Some (Errorf ''unable to flush file'' (bodyFname store) err)
      | None \<Rightarrow>
          (case File_Sync w (headerFile store) of
             Some err \<Rightarrow> Some (Errorf ''unable to flush file'' (headerFname store) err)
           | None \<Rightarrow> None))"

definition SaveMessage ::
  "world \<Rightarrow> 'sid fileStore \<Rightarrow> int \<Rightarrow> bytes \<Rightarrow> world \<times> 'sid fileStore \<times> error option" where
  "SaveMessage w store seqNum msg =
     (case File_SeekEnd w (bodyFile store) of
        Inl err \<Rightarrow>
          (w, store, Some (Errorf ''unable to seek to end of file'' (bodyFname store) err))
      | Inr f \<Rightarrow>
          let store = store\<lparr>bodyFile := Some f\<rparr>; offset = int (pos f) in
          (case File_SeekEnd w (headerFile store) of
             Inl err \<Rightarrow>
               (w, store, Some (Errorf ''unable to seek to end of file'' (headerFname store) err))
           | Inr f \<Rightarrow>
               let store = store\<lparr>headerFile := Some f\<rparr> in
               (case File_Write w (headerFile store)
                       (headerLine seqNum offset (int (length msg))) of
                  Inl err \<Rightarrow>
                    (w, store, Some (Errorf ''unable to write to file'' (headerFname store) err))
                | Inr (w, f) \<Rightarrow>
                    let store = store\<lparr>headerFile := Some f\<rparr> in
                    (case File_Write w (bodyFile store) msg of
                       Inl err \<Rightarrow>
                         (w, store,
                          Some (Errorf ''unable to write to file'' (bodyFname store) err))
                     | Inr (w, f) \<Rightarrow>
                         let store = store\<lparr>bodyFile := Some f\<rparr> in
                         if fileSync store
                         then (w, store, syncBodyAndHeaderFilesLocked w store)
                         else (w, store, None)))))"

definition SaveMessageAndIncrNextSenderMsgSeqNum ::
  "world \<Rightarrow> 'sid fileStore \<Rightarrow> int \<Rightarrow> bytes \<Rightarrow> world \<times> 'sid fileStore \<times> error option" where
  "SaveMessageAndIncrNextSenderMsgSeqNum w store seqNum msg =
     (case SaveMessage w store seqNum msg of
        (w, store, Some err) \<Rightarrow> (w, store, Some err)
      | (w, store, None) \<Rightarrow> IncrNextSenderMsgSeqNum w store)"

text \<open>
  The loop of \<^verbatim>\<open>IterateMessages\<close> over the header file. The callback is a closure: it
  has a state of its own, \<open>acc\<close>, and returns it with its error.
\<close>

function iterateLoop ::
  "world \<Rightarrow> 'sid fileStore \<Rightarrow> osFile \<Rightarrow> osFile \<Rightarrow> int \<Rightarrow> int \<Rightarrow>
   ('a \<Rightarrow> bytes \<Rightarrow> 'a \<times> error option) \<Rightarrow> 'a \<Rightarrow> 'a \<times> error option" where
  "iterateLoop w store bodyFile' headerFile' beginSeqNum endSeqNum cb acc =
     (case Fscanf w headerFile' of
        (headerFile', Inl err) \<Rightarrow>
          if err = EOF then (acc, None)
          else (acc, Some (Errorf ''unable to read from file'' (headerFname store) err))
      | (headerFile', Inr (cnt, seqNum, offset, sz)) \<Rightarrow>
          if cnt < 3 \<or> seqNum > endSeqNum then (acc, None)
          else if seqNum < beginSeqNum
          then iterateLoop w store bodyFile' headerFile' beginSeqNum endSeqNum cb acc
          else if sz < 0 then (acc, Some (Panic ''makeslice: len out of range''))
          else (case File_ReadAt w (Some bodyFile') (nat sz) offset of
                  Inl err \<Rightarrow>
                    (acc, Some (Errorf ''unable to read from file'' (bodyFname store) err))
                | Inr msg \<Rightarrow>
                    (case cb acc msg of
                       (acc, Some err) \<Rightarrow> (acc, Some err)
                     | (acc, None) \<Rightarrow>
                         iterateLoop w store bodyFile' headerFile' beginSeqNum endSeqNum cb acc)))"
  by pat_completeness auto

definition IterateMessages ::
  "world \<Rightarrow> 'sid fileStore \<Rightarrow> int \<Rightarrow> int \<Rightarrow> ('a \<Rightarrow> bytes \<Rightarrow> 'a \<times> error option) \<Rightarrow> 'a \<Rightarrow>
   world \<times> 'sid fileStore \<times> 'a \<times> error option" where
  "IterateMessages w store beginSeqNum endSeqNum cb acc =
     (case syncBodyAndHeaderFilesLocked w store of
        Some err \<Rightarrow> (w, store, acc, Some err)
      | None \<Rightarrow>
     (case openOrCreateFile w (bodyFname store) of
        Inl err \<Rightarrow> (w, store, acc, Some err)
      | Inr (w, bodyFile') \<Rightarrow>
     (case openOrCreateFile w (headerFname store) of
        Inl err \<Rightarrow> (w, store, acc, Some err)
      | Inr (w, headerFile') \<Rightarrow>
     (case File_SeekStart w (Some headerFile') of
        Inl err \<Rightarrow>
          (w, store, acc,
           Some (Errorf ''unable to seek to start of file'' (headerFname store) err))
      | Inr headerFile' \<Rightarrow>
          (case iterateLoop w store bodyFile' headerFile' beginSeqNum endSeqNum cb acc of
             (acc, err) \<Rightarrow> (w, store, acc, err))))))"

definition GetMessages ::
  "world \<Rightarrow> 'sid fileStore \<Rightarrow> int \<Rightarrow> int \<Rightarrow> world \<times> 'sid fileStore \<times> bytes list \<times> error option" where
  "GetMessages w store beginSeqNum endSeqNum =
     IterateMessages w store beginSeqNum endSeqNum (\<lambda>msgs msg. (msgs @ [msg], None)) []"

definition Refresh ::
  "'sid library \<Rightarrow> world \<Rightarrow> 'sid fileStore \<Rightarrow> world \<times> 'sid fileStore \<times> error option" where
  "Refresh lib w store =
     (case mem_Reset w (cache store) of
        (c, Some err) \<Rightarrow> (w, store\<lparr>cache := c\<rparr>, Some (Wrap ''cache reset'' err))
      | (c, None) \<Rightarrow>
     (case Close w (store\<lparr>cache := c\<rparr>) of
        (store, Some err) \<Rightarrow> (w, store, Some err)
      | (store, None) \<Rightarrow>
     (case populateCache lib w store of
        (store, creationTimePopulated, Some err) \<Rightarrow> (w, store, Some err)
      | (store, creationTimePopulated, None) \<Rightarrow>
     (case openOrCreateFile w (bodyFname store) of
        Inl err \<Rightarrow> (w, store\<lparr>bodyFile := None\<rparr>, Some err)
      | Inr (w, f) \<Rightarrow>
     (case openOrCreateFile w (headerFname store) of
        Inl err \<Rightarrow> (w, store\<lparr>bodyFile := Some f, headerFile := None\<rparr>, Some err)
      | Inr (w, g) \<Rightarrow>
     (case openOrCreateFile w (sessionFname store) of
        Inl err \<Rightarrow>
          (w, store\<lparr>bodyFile := Some f, headerFile := Some g, sessionFile := None\<rparr>, Some err)
      | Inr (w, h) \<Rightarrow>
     (case openOrCreateFile w (senderSeqNumsFname store) of
        Inl err \<Rightarrow>
          (w, store\<lparr>bodyFile := Some f, headerFile := Some g, sessionFile := Some h,
                    senderSeqNumsFile := None\<rparr>, Some err)
      | Inr (w, i) \<Rightarrow>
     (case openOrCreateFile w (targetSeqNumsFname store) of
        Inl err \<Rightarrow>
          (w, store\<lparr>bodyFile := Some f, headerFile := Some g, sessionFile := Some h,
                    senderSeqNumsFile := Some i, targetSeqNumsFile := None\<rparr>, Some err)
      | Inr (w, j) \<Rightarrow>
     (case (if \<not> creationTimePopulated
            then setSession lib w
                   (store\<lparr>bodyFile := Some f, headerFile := Some g, sessionFile := Some h,
                          senderSeqNumsFile := Some i, targetSeqNumsFile := Some j\<rparr>)
            else (w, store\<lparr>bodyFile := Some f, headerFile := Some g, sessionFile := Some h,
                           senderSeqNumsFile := Some i, targetSeqNumsFile := Some j\<rparr>, None)) of
        (w, store, Some err) \<Rightarrow> (w, store, Some err)
      | (w, store, None) \<Rightarrow>
     (case SetNextSenderMsgSeqNum w store (NextSenderMsgSeqNum store) of
        (w, store, Some err) \<Rightarrow> (w, store, Some (Wrap ''set next sender'' err))
      | (w, store, None) \<Rightarrow>
     (case SetNextTargetMsgSeqNum w store (NextTargetMsgSeqNum store) of
        (w, store, Some err) \<Rightarrow> (w, store, Some (Wrap ''set next target'' err))
      | (w, store, None) \<Rightarrow> (w, store, None))))))))))))"


definition newFileStore ::
  "'sid library \<Rightarrow> world \<Rightarrow> 'sid \<Rightarrow> string \<Rightarrow> bool \<Rightarrow> world \<times> (error + 'sid fileStore)" where
  \<comment> \<open>\<^verbatim>\<open>os.MkdirAll\<close> fails or not; the store is returned only when \<^verbatim>\<open>Refresh\<close> succeeds\<close>
  "newFileStore lib w sessionID' dirname fileSync' =
     (if (OpMkdir, dirname) \<in> faults w then (w, Inl (IOError OpMkdir dirname))
      else
        let sessionPrefix = createFilenamePrefix lib sessionID' in
        (case mem_Create w of
           (memStore, Some memErr) \<Rightarrow> (w, Inl (Wrap ''cache creation'' memErr))
         | (memStore, None) \<Rightarrow>
             (case Refresh lib w
                     \<lparr>sessionID = sessionID',
                      cache = memStore,
                      bodyFname = pathJoin dirname (sessionPrefix @ ''.'' @ ''body''),
                      headerFname = pathJoin dirname (sessionPrefix @ ''.'' @ ''header''),
                      sessionFname = pathJoin dirname (sessionPrefix @ ''.'' @ ''session''),
                      senderSeqNumsFname =
                        pathJoin dirname (sessionPrefix @ ''.'' @ ''senderseqnums''),
                      targetSeqNumsFname =
                        pathJoin dirname (sessionPrefix @ ''.'' @ ''targetseqnums''),
                      bodyFile = None, headerFile = None, sessionFile = None,
                      senderSeqNumsFile = None, targetSeqNumsFile = None,
                      fileSync = fileSync'\<rparr> of
                (w, store, Some err) \<Rightarrow> (w, Inl err)
              | (w, store, None) \<Rightarrow> (w, Inr store))))"

section \<open>Well-formed stores and logs\<close>

definition handleOf :: "string \<Rightarrow> osFile option \<Rightarrow> bool" where
  \<comment> \<open>the handle is open on the file of that name\<close>
  "handleOf fname fo \<longleftrightarrow> (case fo of None \<Rightarrow> False | Some f \<Rightarrow> Name f = fname)"

definition distinctNames :: "'sid fileStore \<Rightarrow> bool" where
  "distinctNames store \<longleftrightarrow>
     distinct [bodyFname store, headerFname store, sessionFname store,
               senderSeqNumsFname store, targetSeqNumsFname store]"

definition opened :: "'sid fileStore \<Rightarrow> bool" where
  \<comment> \<open>the state \<^verbatim>\<open>Refresh\<close> leaves: five files of five names, each handle on its file\<close>
  "opened store \<longleftrightarrow>
     distinctNames store \<and>
     handleOf (bodyFname store) (bodyFile store) \<and>
     handleOf (headerFname store) (headerFile store) \<and>
     handleOf (sessionFname store) (sessionFile store) \<and>
     handleOf (senderSeqNumsFname store) (senderSeqNumsFile store) \<and>
     handleOf (targetSeqNumsFname store) (targetSeqNumsFile store)"

fun saveAll ::
  "world \<Rightarrow> 'sid fileStore \<Rightarrow> (int \<times> bytes) list \<Rightarrow> world \<times> 'sid fileStore \<times> error option" where
  \<comment> \<open>a sequence of \<^verbatim>\<open>SaveMessage(seqNum, msg)\<close> calls, up to the first that fails\<close>
  "saveAll w store [] = (w, store, None)"
| "saveAll w store ((seqNum, msg) # ms) =
     (case SaveMessage w store seqNum msg of
        (w, store, Some err) \<Rightarrow> (w, store, Some err)
      | (w, store, None) \<Rightarrow> saveAll w store ms)"

fun headerOf :: "nat \<Rightarrow> (int \<times> bytes) list \<Rightarrow> (int \<times> int \<times> int) list" where
  \<comment> \<open>the index entries of messages laid out one after the other from offset \<open>off\<close>\<close>
  "headerOf off [] = []"
| "headerOf off ((seqNum, msg) # ms) =
     (seqNum, int off, int (length msg)) # headerOf (off + length msg) ms"

definition headerText :: "(int \<times> int \<times> int) list \<Rightarrow> string" where
  "headerText es = concat (map (\<lambda>(seqNum, off, sz). headerLine seqNum off sz) es)"

fun replay :: "bytes \<Rightarrow> int \<Rightarrow> int \<Rightarrow> (int \<times> int \<times> int) list \<Rightarrow> bytes list" where
  \<comment> \<open>what a scan for \<open>[b, e]\<close> collects from index entries over the body \<open>B\<close>\<close>
  "replay B b e [] = []"
| "replay B b e ((seqNum, off, sz) # es) =
     (if seqNum > e then []
      else if seqNum < b then replay B b e es
      else take (nat sz) (drop (nat off) B) # replay B b e es)"

section \<open>A store on a small directory\<close>

text \<open>
  A session \<open>S\<close> in directory \<open>d\<close>, as \<^const>\<open>newFileStore\<close> leaves it on an empty
  directory at time 7, with a library whose time text is the decimal number of the instant.
\<close>

definition exLib :: "string library" where
  "exLib = \<lparr>createFilenamePrefix = (\<lambda>s. s),
            MarshalText = (\<lambda>t. Inr (fmt_d t)),
            UnmarshalText = (\<lambda>b. case ParseInt b of None \<Rightarrow> Inl NumError | Some t \<Rightarrow> Inr t)\<rparr>"

definition exStore :: "string fileStore" where
  "exStore =
     \<lparr>sessionID = ''S'',
      cache = \<lparr>nextSender = 1, nextTarget = 1, created = 7\<rparr>,
      bodyFname = ''d/S.body'',
      headerFname = ''d/S.header'',
      sessionFname = ''d/S.session'',
      senderSeqNumsFname = ''d/S.senderseqnums'',
      targetSeqNumsFname = ''d/S.targetseqnums'',
      bodyFile = Some \<lparr>Name = ''d/S.body'', pos = 0\<rparr>,
      headerFile = Some \<lparr>Name = ''d/S.header'', pos = 0\<rparr>,
      sessionFile = Some \<lparr>Name = ''d/S.session'', pos = 1\<rparr>,
      senderSeqNumsFile = Some \<lparr>Name = ''d/S.senderseqnums'', pos = 19\<rparr>,
      targetSeqNumsFile = Some \<lparr>Name = ''d/S.targetseqnums'', pos = 19\<rparr>,
      fileSync = True\<rparr>"

definition exFiles :: "string \<rightharpoonup> bytes" where
  "exFiles =
     [''d/S.body'' \<mapsto> [], ''d/S.header'' \<mapsto> [], ''d/S.session'' \<mapsto> ''7'',
      ''d/S.senderseqnums'' \<mapsto> ''0000000000000000001'',
      ''d/S.targetseqnums'' \<mapsto> ''0000000000000000001'']"

definition exWorld :: world where
  "exWorld = \<lparr>fs = exFiles, clock = 7, faults = {}\<rparr>"

section \<open>Predicates of the claims and further examples\<close>

definition sameSeqState :: "'sid fileStore \<Rightarrow> 'sid fileStore \<Rightarrow> bool" where
  "sameSeqState store store' \<longleftrightarrow>
     NextSenderMsgSeqNum store' = NextSenderMsgSeqNum store \<and>
     NextTargetMsgSeqNum store' = NextTargetMsgSeqNum store \<and>
     CreationTime store' = CreationTime store"

definition exFaulty :: world where
  "exFaulty = exWorld\<lparr>faults := {(OpWrite, ''d/S.senderseqnums''), (OpWrite, ''d/S.targetseqnums'')}\<rparr>"


definition filesAbsent :: "world \<Rightarrow> 'sid fileStore \<Rightarrow> bool" where
  "filesAbsent w store \<longleftrightarrow>
     list_all (\<lambda>nm. fs w nm = None)
       [bodyFname store, headerFname store, sessionFname store,
        senderSeqNumsFname store, targetSeqNumsFname store]"

definition sameConfig :: "'sid fileStore \<Rightarrow> 'sid fileStore \<Rightarrow> bool" where
  "sameConfig store store' \<longleftrightarrow>
     sessionID store' = sessionID store \<and>
     bodyFname store' = bodyFname store \<and> headerFname store' = headerFname store \<and>
     sessionFname store' = sessionFname store \<and>
     senderSeqNumsFname store' = senderSeqNumsFname store \<and>
     targetSeqNumsFname store' = targetSeqNumsFname store \<and>
     fileSync store' = fileSync store"

definition counterFileAfter :: "int list \<Rightarrow> bytes" where
  \<comment> \<open>a counter file that was empty and then took the values \<open>vs\<close>, one write each\<close>
  "counterFileAfter vs = foldl (\<lambda>c v. pwrite c 0 (fmt_019d v)) [] vs"

definition exEmpty :: world where
  "exEmpty = \<lparr>fs = Map.empty, clock = 7, faults = {}\<rparr>"


definition storeFor :: "'sid library \<Rightarrow> world \<Rightarrow> 'sid \<Rightarrow> string \<Rightarrow> bool \<Rightarrow> 'sid fileStore" where
  \<comment> \<open>the struct that \<^const>\<open>newFileStore\<close> builds before it calls \<^const>\<open>Refresh\<close>\<close>
  "storeFor lib w sid dirname sync =
     \<lparr>sessionID = sid,
      cache = \<lparr>nextSender = 1, nextTarget = 1, created = clock w\<rparr>,
      bodyFname = pathJoin dirname (createFilenamePrefix lib sid @ ''.'' @ ''body''),
      headerFname = pathJoin dirname (createFilenamePrefix lib sid @ ''.'' @ ''header''),
      sessionFname = pathJoin dirname (createFilenamePrefix lib sid @ ''.'' @ ''session''),
      senderSeqNumsFname =
        pathJoin dirname (createFilenamePrefix lib sid @ ''.'' @ ''senderseqnums''),
      targetSeqNumsFname =
        pathJoin dirname (createFilenamePrefix lib sid @ ''.'' @ ''targetseqnums''),
      bodyFile = None, headerFile = None, sessionFile = None,
      senderSeqNumsFile = None, targetSeqNumsFile = None,
      fileSync = sync\<rparr>"

section \<open>Termination of the scan\<close>

lemma SkipSpace_length: "SkipSpace inp = Inr r \<Longrightarrow> length r \<le> length inp"
  by (induction inp rule: SkipSpace.induct) (auto split: if_splits)

lemma scanInt_length: "scanInt inp = Inr (i, r) \<Longrightarrow> length r < length inp"
proof -
  assume a: "scanInt inp = Inr (i, r)"
  then obtain i1 where s: "SkipSpace inp = Inr i1" and ne: "i1 \<noteq> []"
    by (auto simp: scanInt_def split: sum.splits if_splits)
  obtain sgn i2 where acc: "accept ''+-'' i1 = (sgn, i2)"
    by (cases "accept ''+-'' i1")
  from a s ne acc obtain digs where n: "scanNumber i2 = Inr (digs, r)"
    by (auto simp: scanInt_def split: sum.splits option.splits)
  have "length i2 \<le> length i1"
    using acc by (auto simp: accept_def split: list.splits if_splits)
  moreover have "length r < length i2"
  proof -
    from n have i2: "i2 \<noteq> []" and h: "hd i2 \<in> set decimalDigits"
      and r: "r = dropWhile (\<lambda>r. r \<in> set decimalDigits) i2"
      by (auto simp: scanNumber_def split: if_splits)
    from i2 h obtain x xs where "i2 = x # xs" "x \<in> set decimalDigits"
      by (cases i2) auto
    with r show ?thesis
      using length_dropWhile_le [of "\<lambda>r. r \<in> set decimalDigits" xs] by simp
  qed
  moreover have "length i1 \<le> length inp"
    using s by (rule SkipSpace_length)
  ultimately show ?thesis by linarith
qed

lemma scanVerb_d_length: "scanVerb_d inp = Inr (i, r) \<Longrightarrow> length r < length inp"
  by (auto simp: scanVerb_d_def split: sum.splits
           dest!: SkipSpace_length scanInt_length)

lemma scanLiteral_length: "scanLiteral c inp = Inr r \<Longrightarrow> length r < length inp"
  by (auto simp: scanLiteral_def split: list.splits if_splits)

lemma scanNewline_length: "scanNewline inp = Inr r \<Longrightarrow> length r \<le> length inp"
proof -
  assume a: "scanNewline inp = Inr r"
  let ?d = "dropWhile (\<lambda>r. isSpace r \<and> r \<noteq> CHR 0x0A) inp"
  have "length ?d \<le> length inp" by (rule length_dropWhile_le)
  moreover from a have "length r \<le> length ?d"
    by (auto simp: scanNewline_def split: list.splits if_splits)
  ultimately show ?thesis by linarith
qed

lemma scanHeader_length:
  "scanHeader inp = Inr (cnt, a, b, c, rest) \<Longrightarrow> length rest < length inp"
  by (auto simp: scanHeader_def split: sum.splits
           dest!: scanVerb_d_length scanLiteral_length scanNewline_length)

lemma scanHeader_cnt: "scanHeader inp = Inr (cnt, a, b, c, rest) \<Longrightarrow> cnt = 3"
  by (auto simp: scanHeader_def split: sum.splits)

lemma Fscanf_progress:
  assumes "Fscanf w f = (f', Inr r)"
  shows "\<exists>c. fs w (Name f) = Some c \<and> Name f' = Name f
             \<and> length c - pos f' < length c - pos f"
proof -
  from assms obtain c where c: "fs w (Name f) = Some c"
    by (auto simp: Fscanf_def split: if_splits option.splits)
  from assms c obtain cnt a b d rest
    where sc: "scanHeader (drop (pos f) c) = Inr (cnt, a, b, d, rest)"
      and f': "f' = f\<lparr>pos := length c - length rest\<rparr>"
    by (auto simp: Fscanf_def split: if_splits sum.splits)
  from sc have "length rest < length c - pos f"
    using scanHeader_length by fastforce
  with c f' show ?thesis by auto
qed

termination iterateLoop
proof (relation "measure (\<lambda>(w, store, bodyFile', headerFile', beginSeqNum, endSeqNum, cb, acc).
                   case fs w (Name headerFile') of None \<Rightarrow> 0
                   | Some c \<Rightarrow> length c - pos headerFile')")
  show "wf (measure (\<lambda>(w, store :: 'a fileStore, bodyFile', headerFile', beginSeqNum :: int,
                        endSeqNum :: int, cb :: 'b \<Rightarrow> bytes \<Rightarrow> 'b \<times> error option, acc :: 'b).
                   case fs w (Name headerFile') of None \<Rightarrow> 0
                   | Some c \<Rightarrow> length c - pos headerFile'))"
    by simp
qed (auto dest!: Fscanf_progress [OF sym])

declare iterateLoop.simps [simp del]

section \<open>Printing and scanning are inverse\<close>

lemma digitVal_digitChar: "d < 10 \<Longrightarrow> digitVal (digitChar d) = d"
proof -
  assume "d < 10"
  then have "d \<in> {0, 1, 2, 3, 4, 5, 6, 7, 8, 9}" by auto
  then show ?thesis by (auto simp: digitVal_def digitChar_def)
qed

lemma isDigit_digitChar: "d < 10 \<Longrightarrow> isDigit (digitChar d)"
proof -
  assume "d < 10"
  then have "d \<in> {0, 1, 2, 3, 4, 5, 6, 7, 8, 9}" by auto
  then show ?thesis by (auto simp: isDigit_def digitChar_def)
qed

lemma decimal_not_Nil: "decimal n \<noteq> []"
  by (subst decimal.simps) simp

lemma decimal_digits: "list_all isDigit (decimal n)"
proof (induction n rule: decimal.induct)
  case (1 n)
  show ?case
  proof (cases "n < 10")
    case True
    then show ?thesis by (subst decimal.simps) (simp add: isDigit_digitChar)
  next
    case False
    with 1 show ?thesis by (subst decimal.simps) (simp add: isDigit_digitChar)
  qed
qed

lemma decimalVal_snoc: "decimalVal (ds @ [c]) = 10 * decimalVal ds + digitVal c"
  by (simp add: decimalVal_def)

lemma decimalVal_decimal: "decimalVal (decimal n) = n"
proof (induction n rule: decimal.induct)
  case (1 n)
  show ?case
  proof (cases "n < 10")
    case True
    then show ?thesis
      by (subst decimal.simps) (simp add: decimalVal_def digitVal_digitChar)
  next
    case False
    with 1 have "decimalVal (decimal (n div 10)) = n div 10" by simp
    with False show ?thesis
      by (subst decimal.simps) (simp add: decimalVal_snoc digitVal_digitChar)
  qed
qed

lemma decimalVal_zeros: "decimalVal (replicate k CHR ''0'' @ ds) = decimalVal ds"
proof -
  have "foldl (\<lambda>a c. 10 * a + digitVal c) 0 (replicate k CHR ''0'') = 0"
    by (induction k) (simp_all add: digitVal_def)
  then show ?thesis by (simp add: decimalVal_def)
qed

lemma length_decimal_le: "n < 10 ^ k \<Longrightarrow> 0 < k \<Longrightarrow> length (decimal n) \<le> k"
proof (induction n arbitrary: k rule: decimal.induct)
  case (1 n)
  show ?case
  proof (cases "n < 10")
    case True
    with 1 show ?thesis by (subst decimal.simps) simp
  next
    case False
    from \<open>0 < k\<close> obtain j where k: "k = Suc j" by (cases k) auto
    with False 1 have j: "0 < j" by (cases j) auto
    from 1 k have "n div 10 < 10 ^ j" by (simp add: less_mult_imp_div_less mult.commute)
    with 1 False j have "length (decimal (n div 10)) \<le> j" by blast
    with False k show ?thesis by (subst decimal.simps) simp
  qed
qed

lemma hd_decimal_digit: "isDigit (hd (decimal n))"
  using decimal_digits [of n] decimal_not_Nil [of n] by (cases "decimal n") auto

lemma isDigit_not_sign: "isDigit c \<Longrightarrow> c \<noteq> CHR ''-'' \<and> c \<noteq> CHR ''+''"
  by (auto simp: isDigit_def)

lemma ParseInt_digits:
  assumes "ds \<noteq> []" "list_all isDigit ds" "int (decimalVal ds) \<le> maxInt"
  shows "ParseInt ds = Some (int (decimalVal ds))"
proof -
  from assms obtain c cs where ds: "ds = c # cs" by (cases ds) auto
  with assms have "c \<noteq> CHR ''-''" "c \<noteq> CHR ''+''" using isDigit_not_sign by auto
  with assms ds show ?thesis by (simp add: ParseInt_def maxInt_def)
qed

lemma ParseInt_minus:
  assumes "ds \<noteq> []" "list_all isDigit ds" "int (decimalVal ds) \<le> - minInt"
  shows "ParseInt (CHR ''-'' # ds) = Some (- int (decimalVal ds))"
  using assms by (simp add: ParseInt_def minInt_def)

lemma ParseInt_fmt_d: "isInt n \<Longrightarrow> ParseInt (fmt_d n) = Some n"
  by (auto simp: fmt_d_def isInt_def ParseInt_digits ParseInt_minus decimal_not_Nil
      decimal_digits decimalVal_decimal)


lemma isDigit_props:
  "isDigit c \<Longrightarrow> \<not> isSpace c \<and> c \<in> set decimalDigits \<and> c \<notin> set ''+-''"
  by (auto simp: isDigit_def isSpace_def decimalDigits_def)

lemma SkipSpace_nonspace: "\<not> isSpace c \<Longrightarrow> SkipSpace (c # rs) = Inr (c # rs)"
  by (auto simp: isSpace_def)

lemma scanNumber_decimal:
  assumes "t = [] \<or> hd t \<notin> set decimalDigits"
  shows "scanNumber (decimal m @ t) = Inr (decimal m, t)"
proof -
  have all: "\<forall>x\<in>set (decimal m). x \<in> set decimalDigits"
    using decimal_digits [of m] isDigit_props by (auto simp: list_all_iff)
  have tw: "takeWhile (\<lambda>r. r \<in> set decimalDigits) (decimal m @ t) = decimal m"
    using all assms by (cases t) (auto simp: takeWhile_append2)
  have dw: "dropWhile (\<lambda>r. r \<in> set decimalDigits) (decimal m @ t) = t"
    using all assms by (cases t) (auto simp: dropWhile_append2)
  have "hd (decimal m @ t) \<in> set decimalDigits"
    using hd_decimal_digit [of m] decimal_not_Nil [of m] isDigit_props by simp
  with tw dw show ?thesis
    by (simp add: scanNumber_def decimal_not_Nil)
qed

lemma scanInt_fmt_d:
  assumes "isInt n" "t = [] \<or> hd t \<notin> set decimalDigits"
  shows "scanInt (fmt_d n @ t) = Inr (n, t)"
proof (cases "n < 0")
  case True
  have sk: "SkipSpace (CHR ''-'' # decimal (nat (- n)) @ t) = Inr (CHR ''-'' # decimal (nat (- n)) @ t)"
    by (rule SkipSpace_nonspace) (simp add: isSpace_def)
  have p: "ParseInt (CHR ''-'' # decimal (nat (- n))) = Some n"
    using ParseInt_fmt_d [OF assms(1)] True by (simp add: fmt_d_def)
  show ?thesis
    using True sk p scanNumber_decimal [OF assms(2)]
    by (simp add: scanInt_def fmt_d_def accept_def)
next
  case False
  obtain c cs where d: "decimal (nat n) = c # cs"
    using decimal_not_Nil [of "nat n"] by (cases "decimal (nat n)") auto
  then have c: "isDigit c" using hd_decimal_digit [of "nat n"] by simp
  have sk: "SkipSpace (decimal (nat n) @ t) = Inr (decimal (nat n) @ t)"
    using d c isDigit_props SkipSpace_nonspace by simp
  have acc: "accept ''+-'' (decimal (nat n) @ t) = ([], decimal (nat n) @ t)"
    using d c isDigit_props [of c] by (simp add: accept_def)
  have p: "ParseInt (decimal (nat n)) = Some n"
    using ParseInt_fmt_d [OF assms(1)] False by (simp add: fmt_d_def)
  show ?thesis
    using False sk acc p scanNumber_decimal [OF assms(2)]
    by (simp add: scanInt_def fmt_d_def decimal_not_Nil)
qed

lemma fmt_d_hd_nonspace: "\<exists>c cs. fmt_d n = c # cs \<and> \<not> isSpace c"
proof (cases "n < 0")
  case True
  then show ?thesis by (simp add: fmt_d_def isSpace_def)
next
  case False
  obtain c cs where d: "decimal (nat n) = c # cs"
    using decimal_not_Nil [of "nat n"] by (cases "decimal (nat n)") auto
  then have "isDigit c" using hd_decimal_digit [of "nat n"] by simp
  with d False show ?thesis using isDigit_props by (auto simp: fmt_d_def)
qed

lemma scanVerb_d_fmt_d:
  assumes "isInt n" "t = [] \<or> hd t \<notin> set decimalDigits"
  shows "scanVerb_d (fmt_d n @ t) = Inr (n, t)"
proof -
  obtain c cs where "fmt_d n = c # cs" "\<not> isSpace c"
    using fmt_d_hd_nonspace by blast
  then have "SkipSpace (fmt_d n @ t) = Inr (fmt_d n @ t)"
    by (simp add: SkipSpace_nonspace del: SkipSpace.simps)
  then show ?thesis
    using scanInt_fmt_d [OF assms] by (simp add: scanVerb_d_def)
qed

lemma scanHeader_headerLine:
  assumes "isInt a" "isInt b" "isInt c"
  shows "scanHeader (headerLine a b c @ rest) = Inr (3, a, b, c, rest)"
proof -
  have 1: "scanVerb_d (fmt_d a @ CHR '','' # fmt_d b @ CHR '','' # fmt_d c @ CHR 0x0A # rest)
           = Inr (a, CHR '','' # fmt_d b @ CHR '','' # fmt_d c @ CHR 0x0A # rest)"
    by (rule scanVerb_d_fmt_d [OF assms(1)]) (simp add: decimalDigits_def)
  have 2: "scanVerb_d (fmt_d b @ CHR '','' # fmt_d c @ CHR 0x0A # rest)
           = Inr (b, CHR '','' # fmt_d c @ CHR 0x0A # rest)"
    by (rule scanVerb_d_fmt_d [OF assms(2)]) (simp add: decimalDigits_def)
  have 3: "scanVerb_d (fmt_d c @ CHR 0x0A # rest) = Inr (c, CHR 0x0A # rest)"
    by (rule scanVerb_d_fmt_d [OF assms(3)]) (simp add: decimalDigits_def)
  show ?thesis
    using 1 2 3 by (simp add: scanHeader_def headerLine_def scanLiteral_def scanNewline_def)
qed


section \<open>Saving and replaying messages\<close>

lemma pwrite_end: "pwrite c (length c) d = c @ d"
  by (simp add: pwrite_def)

lemma pwrite_start: "pwrite c 0 d = d @ drop (length d) c"
  by (simp add: pwrite_def)

lemma handleOfE: "handleOf n fo \<Longrightarrow> (\<And>p. fo = Some \<lparr>Name = n, pos = p\<rparr> \<Longrightarrow> P) \<Longrightarrow> P"
  by (cases fo; cases "the fo") (auto simp: handleOf_def)

lemma SaveMessage_ok:
  assumes "faults w = {}" "opened store"
    and "fs w (bodyFname store) = Some B" "fs w (headerFname store) = Some H"
  shows "SaveMessage w store n msg =
           (w\<lparr>fs := (fs w)(headerFname store \<mapsto> H @ headerLine n (int (length B)) (int (length msg)),
                          bodyFname store \<mapsto> B @ msg)\<rparr>,
            store\<lparr>bodyFile := Some \<lparr>Name = bodyFname store, pos = length B + length msg\<rparr>,
                  headerFile := Some \<lparr>Name = headerFname store,
                    pos = length H + length (headerLine n (int (length B)) (int (length msg)))\<rparr>\<rparr>,
            None)"
proof -
  from assms(2) have ne: "bodyFname store \<noteq> headerFname store"
    by (simp add: opened_def distinctNames_def)
  from assms(2) obtain p where b: "bodyFile store = Some \<lparr>Name = bodyFname store, pos = p\<rparr>"
    by (auto simp: opened_def elim: handleOfE)
  from assms(2) obtain q where h: "headerFile store = Some \<lparr>Name = headerFname store, pos = q\<rparr>"
    by (auto simp: opened_def elim: handleOfE)
  show ?thesis
    using assms(1,3,4) ne b h
    by (simp add: SaveMessage_def File_SeekEnd_def File_Write_def File_Sync_def
        syncBodyAndHeaderFilesLocked_def pwrite_end Let_def)
qed


lemma saveAll_ok:
  assumes "faults w = {}" "opened store"
    and "fs w (bodyFname store) = Some B" "fs w (headerFname store) = Some H"
  shows "\<exists>w' store'. saveAll w store ms = (w', store', None) \<and> faults w' = {} \<and> opened store'
           \<and> bodyFname store' = bodyFname store \<and> headerFname store' = headerFname store
           \<and> cache store' = cache store
           \<and> fs w' (bodyFname store) = Some (B @ concat (map snd ms))
           \<and> fs w' (headerFname store) = Some (H @ headerText (headerOf (length B) ms))"
  using assms
proof (induction ms arbitrary: w store B H)
  case Nil
  then show ?case by (simp add: headerText_def)
next
  case (Cons m ms)
  obtain n msg where m: "m = (n, msg)" by (cases m)
  let ?w = "w\<lparr>fs := (fs w)(headerFname store \<mapsto> H @ headerLine n (int (length B)) (int (length msg)),
                          bodyFname store \<mapsto> B @ msg)\<rparr>"
  let ?s = "store\<lparr>bodyFile := Some \<lparr>Name = bodyFname store, pos = length B + length msg\<rparr>,
                  headerFile := Some \<lparr>Name = headerFname store,
                    pos = length H + length (headerLine n (int (length B)) (int (length msg)))\<rparr>\<rparr>"
  have sm: "SaveMessage w store n msg = (?w, ?s, None)"
    using Cons.prems by (rule SaveMessage_ok)
  from Cons.prems(2) have ne: "bodyFname store \<noteq> headerFname store"
    by (simp add: opened_def distinctNames_def)
  have 1: "faults ?w = {}" using Cons.prems(1) by simp
  have 2: "opened ?s" using Cons.prems(2) by (simp add: opened_def distinctNames_def handleOf_def)
  have 3: "fs ?w (bodyFname ?s) = Some (B @ msg)" by simp
  have 4: "fs ?w (headerFname ?s) = Some (H @ headerLine n (int (length B)) (int (length msg)))"
    using ne by simp
  from Cons.IH [OF 1 2 3 4] sm m show ?case
    by (auto simp: headerText_def)
qed

lemma drop_suffix: "drop k H = xs @ rest \<Longrightarrow> drop (length H - length rest) H = rest"
proof -
  assume a: "drop k H = xs @ rest"
  have "H = take k H @ xs @ rest" using a by (metis append_take_drop_id)
  then have "H = (take k H @ xs) @ rest" by simp
  then show ?thesis by (metis append_eq_conv_conj diff_add_inverse2 length_append)
qed

lemma Fscanf_headerLine:
  assumes "(OpRead, Name hf) \<notin> faults w" "fs w (Name hf) = Some H"
    and "drop (pos hf) H = headerLine s off z @ rest" "isInt s" "isInt off" "isInt z"
  shows "Fscanf w hf = (hf\<lparr>pos := length H - length rest\<rparr>, Inr (3, s, off, z))"
  using assms by (simp add: Fscanf_def scanHeader_headerLine)

lemma scanHeader_Nil: "scanHeader [] = Inl EOF"
  by (simp add: scanHeader_def scanVerb_d_def scanInt_def)

lemma File_ReadAt_ok:
  assumes "(OpRead, Name bf) \<notin> faults w" "fs w (Name bf) = Some B"
    and "0 \<le> off" "nat off + n \<le> length B"
  shows "File_ReadAt w (Some bf) n off = Inr (take n (drop (nat off) B))"
  using assms by (simp add: File_ReadAt_def)

lemma iterateLoop_replay:
  assumes "(OpRead, Name hf) \<notin> faults w" "(OpRead, Name bf) \<notin> faults w"
    and "fs w (Name hf) = Some H" "fs w (Name bf) = Some B"
    and "drop (pos hf) H = headerText es"
    and "\<forall>(s, off, z) \<in> set es. isInt s \<and> isInt off \<and> isInt z"
    and "\<forall>(s, off, z) \<in> set es. b \<le> s \<and> s \<le> e \<longrightarrow> 0 \<le> off \<and> 0 \<le> z \<and> nat off + nat z \<le> length B"
  shows "iterateLoop w store bf hf b e (\<lambda>msgs msg. (msgs @ [msg], None)) acc
         = (acc @ replay B b e es, None)"
  using assms(1,3,5,6,7)
proof (induction es arbitrary: hf acc)
  case Nil
  then show ?case
    by (subst iterateLoop.simps) (simp add: Fscanf_def scanHeader_Nil headerText_def)
next
  case (Cons x es)
  obtain s off z where x: "x = (s, off, z)" by (cases x)
  let ?hf = "hf\<lparr>pos := length H - length (headerText es)\<rparr>"
  from Cons.prems x have d: "drop (pos hf) H = headerLine s off z @ headerText es"
    by (simp add: headerText_def)
  from Cons.prems x have ints: "isInt s" "isInt off" "isInt z" by auto
  have sc: "Fscanf w hf = (?hf, Inr (3, s, off, z))"
    using Cons.prems(1,2) d ints by (rule Fscanf_headerLine)
  have d': "drop (pos ?hf) H = headerText es"
    using drop_suffix [OF d] by simp
  have IH: "iterateLoop w store bf ?hf b e (\<lambda>msgs msg. (msgs @ [msg], None)) acc'
         = (acc' @ replay B b e es, None)" for acc'
  proof (rule Cons.IH)
    show "(OpRead, Name ?hf) \<notin> faults w" using Cons.prems(1) by simp
    show "fs w (Name ?hf) = Some H" using Cons.prems(2) by simp
    show "drop (pos ?hf) H = headerText es" by (rule d')
    show "\<forall>(s, off, z) \<in> set es. isInt s \<and> isInt off \<and> isInt z"
      using Cons.prems(4) by simp
    show "\<forall>(s, off, z) \<in> set es. b \<le> s \<and> s \<le> e \<longrightarrow> 0 \<le> off \<and> 0 \<le> z \<and> nat off + nat z \<le> length B"
      using Cons.prems(5) by simp
  qed
  show ?case
  proof (cases "s > e \<or> s < b")
    case True
    then show ?thesis
      using sc IH x by (subst iterateLoop.simps) auto
  next
    case False
    with Cons.prems x have r: "0 \<le> off" "0 \<le> z" "nat off + nat z \<le> length B" by auto
    have rd: "File_ReadAt w (Some bf) (nat z) off = Inr (take (nat z) (drop (nat off) B))"
      using assms(2,4) r(1,3) by (rule File_ReadAt_ok)
    show ?thesis
      using False sc rd r IH x by (subst iterateLoop.simps) auto
  qed
qed


lemma GetMessages_replay:
  assumes "faults w = {}"
    and "handleOf (bodyFname store) (bodyFile store)" "handleOf (headerFname store) (headerFile store)"
    and "fs w (bodyFname store) = Some B" "fs w (headerFname store) = Some (headerText es)"
    and "\<forall>(s, off, z) \<in> set es. isInt s \<and> isInt off \<and> isInt z"
    and "\<forall>(s, off, z) \<in> set es. b \<le> s \<and> s \<le> e \<longrightarrow> 0 \<le> off \<and> 0 \<le> z \<and> nat off + nat z \<le> length B"
  shows "GetMessages w store b e = (w, store, replay B b e es, None)"
proof -
  let ?bf = "\<lparr>Name = bodyFname store, pos = 0\<rparr>"
  let ?hf = "\<lparr>Name = headerFname store, pos = 0\<rparr>"
  have sy: "syncBodyAndHeaderFilesLocked w store = None"
    using assms(1,2,3)
    by (auto simp: syncBodyAndHeaderFilesLocked_def File_Sync_def handleOf_def split: option.splits)
  have o1: "openOrCreateFile w (bodyFname store) = Inr (w, ?bf)"
    using assms(1,4) by (simp add: openOrCreateFile_def)
  have o2: "openOrCreateFile w (headerFname store) = Inr (w, ?hf)"
    using assms(1,5) by (simp add: openOrCreateFile_def)
  have sk: "File_SeekStart w (Some ?hf) = Inr ?hf"
    using assms(1) by (simp add: File_SeekStart_def)
  have lp: "iterateLoop w store ?bf ?hf b e (\<lambda>msgs msg. (msgs @ [msg], None)) []
            = ([] @ replay B b e es, None)"
    using assms(1,4,5,6,7) by (intro iterateLoop_replay) auto
  show ?thesis
    using sy o1 o2 sk lp by (simp add: GetMessages_def IterateMessages_def)
qed

lemma headerOf_bounds:
  "(s, off, z) \<in> set (headerOf k ms) \<Longrightarrow>
     s \<in> fst ` set ms \<and> 0 \<le> off \<and> 0 \<le> z \<and> nat off + nat z \<le> k + length (concat (map snd ms))"
proof (induction ms arbitrary: k)
  case Nil
  then show ?case by simp
next
  case (Cons m ms)
  obtain n msg where m: "m = (n, msg)" by (cases m)
  from Cons.prems m consider "(s, off, z) = (n, int k, int (length msg))"
    | "(s, off, z) \<in> set (headerOf (k + length msg) ms)" by auto
  then show ?case
  proof cases
    case 1
    with m show ?thesis by auto
  next
    case 2
    from Cons.IH [OF 2] m show ?thesis by auto
  qed
qed

lemma replay_sorted:
  assumes "sorted_wrt (<) (map fst ms)"
  shows "replay (P @ concat (map snd ms)) b e (headerOf (length P) ms)
         = map snd (filter (\<lambda>(n, msg). b \<le> n \<and> n \<le> e) ms)"
  using assms
proof (induction ms arbitrary: P)
  case Nil
  then show ?case by simp
next
  case (Cons m ms)
  obtain n msg where m: "m = (n, msg)" by (cases m)
  from Cons.prems m have gt: "\<forall>x\<in>set ms. n < fst x" and so: "sorted_wrt (<) (map fst ms)"
    by auto
  have IH: "replay (P @ msg @ concat (map snd ms)) b e (headerOf (length P + length msg) ms)
            = map snd (filter (\<lambda>(n, msg). b \<le> n \<and> n \<le> e) ms)"
    using Cons.IH [OF so, of "P @ msg"] by simp
  show ?case
  proof (cases "n > e")
    case True
    with gt have "filter (\<lambda>(n, msg). b \<le> n \<and> n \<le> e) ms = []"
      by (auto simp: filter_empty_conv)
    with True m show ?thesis by simp
  next
    case False
    with IH m show ?thesis by simp
  qed
qed

section \<open>Counter files and malformed index lines\<close>

lemma SaveMessage_cache: "cache (fst (snd (SaveMessage w store n msg))) = cache store"
  by (simp add: SaveMessage_def Let_def split: sum.splits prod.splits)

lemma IterateMessages_store: "fst (snd (IterateMessages w store b e cb acc)) = store"
  by (simp add: IterateMessages_def split: sum.splits prod.splits option.splits)

lemma setSeqNum_write_fault:
  "(OpWrite, Name f) \<in> faults w \<Longrightarrow>
     \<exists>fo err. setSeqNum w store (Some f) n = (w, fo, Some err)"
  by (simp add: setSeqNum_def File_SeekStart_def File_Write_def)

lemma length_zeroPad: "length s \<le> k \<Longrightarrow> length (zeroPad k s) = k"
  by (simp add: zeroPad_def)

lemma length_fmt_019d:
  assumes "- 1000000000000000000 < n" "n \<le> maxInt"
  shows "length (fmt_019d n) = 19"
proof (cases "n < 0")
  case True
  with assms have "nat (- n) < 10 ^ 18" by simp
  then have "length (decimal (nat (- n))) \<le> 18" by (rule length_decimal_le) simp
  with True show ?thesis by (simp add: fmt_019d_def length_zeroPad)
next
  case False
  with assms have "nat n < 10 ^ 19" by (simp add: maxInt_def)
  then have "length (decimal (nat n)) \<le> 19" by (rule length_decimal_le) simp
  with False show ?thesis by (simp add: fmt_019d_def length_zeroPad)
qed

lemma fmt_019d_chars: "c \<in> set (fmt_019d n) \<Longrightarrow> isDigit c \<or> c = CHR ''-''"
proof -
  assume c: "c \<in> set (fmt_019d n)"
  have z: "isDigit CHR ''0''" by (simp add: isDigit_def)
  have d: "x \<in> set (decimal m) \<Longrightarrow> isDigit x" for x m
    using decimal_digits [of m] by (simp add: list_all_iff)
  from c consider "c = CHR ''-''" | "c = CHR ''0''" | m where "c \<in> set (decimal m)"
    by (auto simp: fmt_019d_def zeroPad_def split: if_splits)
  then show ?thesis using z d by cases auto
qed

lemma setSeqNum_success:
  assumes "setSeqNum w store fo n = (w', fo', None)"
  shows "\<exists>f c. fo = Some f \<and> fs w (Name f) = Some c \<and>
           w' = w\<lparr>fs := (fs w)(Name f \<mapsto> fmt_019d n @ drop (length (fmt_019d n)) c)\<rparr> \<and>
           fo' = Some (f\<lparr>pos := length (fmt_019d n)\<rparr>)"
  using assms
  by (auto simp: setSeqNum_def File_SeekStart_def File_Write_def pwrite_start
      split: option.splits sum.splits if_splits)

lemma SetNextSenderMsgSeqNum_success:
  assumes "SetNextSenderMsgSeqNum w store n = (w', store', None)"
  shows "\<exists>f c. senderSeqNumsFile store = Some f \<and> fs w (Name f) = Some c \<and>
           w' = w\<lparr>fs := (fs w)(Name f \<mapsto> fmt_019d n @ drop (length (fmt_019d n)) c)\<rparr> \<and>
           store' = store\<lparr>senderSeqNumsFile := Some (f\<lparr>pos := length (fmt_019d n)\<rparr>),
                          cache := (cache store)\<lparr>nextSender := n\<rparr>\<rparr>"
proof -
  from assms obtain fo' where s: "setSeqNum w store (senderSeqNumsFile store) n = (w', fo', None)"
    and st: "store' = store\<lparr>senderSeqNumsFile := fo', cache := (cache store)\<lparr>nextSender := n\<rparr>\<rparr>"
    by (auto simp: SetNextSenderMsgSeqNum_def mem_SetNextSenderMsgSeqNum_def
        split: prod.splits option.splits)
  from setSeqNum_success [OF s] st show ?thesis by auto
qed

lemma SetNextTargetMsgSeqNum_success:
  assumes "SetNextTargetMsgSeqNum w store n = (w', store', None)"
  shows "\<exists>f c. targetSeqNumsFile store = Some f \<and> fs w (Name f) = Some c \<and>
           w' = w\<lparr>fs := (fs w)(Name f \<mapsto> fmt_019d n @ drop (length (fmt_019d n)) c)\<rparr> \<and>
           store' = store\<lparr>targetSeqNumsFile := Some (f\<lparr>pos := length (fmt_019d n)\<rparr>),
                          cache := (cache store)\<lparr>nextTarget := n\<rparr>\<rparr>"
proof -
  from assms obtain fo' where s: "setSeqNum w store (targetSeqNumsFile store) n = (w', fo', None)"
    and st: "store' = store\<lparr>targetSeqNumsFile := fo', cache := (cache store)\<lparr>nextTarget := n\<rparr>\<rparr>"
    by (auto simp: SetNextTargetMsgSeqNum_def mem_SetNextTargetMsgSeqNum_def
        split: prod.splits option.splits)
  from setSeqNum_success [OF s] st show ?thesis by auto
qed

lemma decimal_e18: "decimal 1000000000000000000 = ''1000000000000000000''"
  by (simp add: decimal.simps digitChar_def)











section \<open>Saving with the counter, and recovery\<close>

lemma wrapInt_id: "isInt n \<Longrightarrow> wrapInt n = n"
  by (simp add: wrapInt_def isInt_def minInt_def maxInt_def)

lemma setSeqNum_ok:
  assumes "faults w = {}" "fs w nm = Some c"
  shows "setSeqNum w store (Some \<lparr>Name = nm, pos = p\<rparr>) k =
           (w\<lparr>fs := (fs w)(nm \<mapsto> fmt_019d k @ drop (length (fmt_019d k)) c)\<rparr>,
            Some \<lparr>Name = nm, pos = length (fmt_019d k)\<rparr>, None)"
  using assms
  by (simp add: setSeqNum_def File_SeekStart_def File_Write_def File_Sync_def pwrite_start)

lemma SetNextSenderMsgSeqNum_ok:
  assumes "faults w = {}" "handleOf (senderSeqNumsFname store) (senderSeqNumsFile store)"
    and "fs w (senderSeqNumsFname store) = Some c"
  shows "SetNextSenderMsgSeqNum w store k =
           (w\<lparr>fs := (fs w)(senderSeqNumsFname store \<mapsto> fmt_019d k @ drop (length (fmt_019d k)) c)\<rparr>,
            store\<lparr>senderSeqNumsFile :=
                    Some \<lparr>Name = senderSeqNumsFname store, pos = length (fmt_019d k)\<rparr>,
                  cache := (cache store)\<lparr>nextSender := k\<rparr>\<rparr>, None)"
proof -
  from assms(2) obtain p
    where "senderSeqNumsFile store = Some \<lparr>Name = senderSeqNumsFname store, pos = p\<rparr>"
    by (rule handleOfE)
  then show ?thesis
    using setSeqNum_ok [OF assms(1,3), of store p k]
    by (simp add: SetNextSenderMsgSeqNum_def mem_SetNextSenderMsgSeqNum_def)
qed

lemma SetNextTargetMsgSeqNum_ok:
  assumes "faults w = {}" "handleOf (targetSeqNumsFname store) (targetSeqNumsFile store)"
    and "fs w (targetSeqNumsFname store) = Some c"
  shows "SetNextTargetMsgSeqNum w store k =
           (w\<lparr>fs := (fs w)(targetSeqNumsFname store \<mapsto> fmt_019d k @ drop (length (fmt_019d k)) c)\<rparr>,
            store\<lparr>targetSeqNumsFile :=
                    Some \<lparr>Name = targetSeqNumsFname store, pos = length (fmt_019d k)\<rparr>,
                  cache := (cache store)\<lparr>nextTarget := k\<rparr>\<rparr>, None)"
proof -
  from assms(2) obtain p
    where "targetSeqNumsFile store = Some \<lparr>Name = targetSeqNumsFname store, pos = p\<rparr>"
    by (rule handleOfE)
  then show ?thesis
    using setSeqNum_ok [OF assms(1,3), of store p k]
    by (simp add: SetNextTargetMsgSeqNum_def mem_SetNextTargetMsgSeqNum_def)
qed

lemma replay_skip:
  assumes "\<forall>(s, off, z) \<in> set es. s < b \<and> s \<le> e"
  shows "replay B b e (es @ es') = replay B b e es'"
  using assms by (induction es) auto

lemma headerText_snoc:
  "headerText (es @ [(s, off, z)]) = headerText es @ headerLine s off z"
  by (simp add: headerText_def)

lemma SaveMessageAndIncr_counter:
  assumes "SaveMessageAndIncrNextSenderMsgSeqNum w store n msg = (w', store', None)"
  shows "NextSenderMsgSeqNum store' = wrapInt (NextSenderMsgSeqNum store + 1)"
proof -
  obtain w1 s1 e1 where sm: "SaveMessage w store n msg = (w1, s1, e1)"
    by (cases "SaveMessage w store n msg") auto
  with assms have e1: "e1 = None" and inc: "IncrNextSenderMsgSeqNum w1 s1 = (w', store', None)"
    by (auto simp: SaveMessageAndIncrNextSenderMsgSeqNum_def split: option.splits)
  from sm have c: "cache s1 = cache store"
    using SaveMessage_cache [of w store n msg] by simp
  from inc have "SetNextSenderMsgSeqNum w1 s1 (wrapInt (nextSender (cache s1) + 1))
                 = (w', store', None)"
    by (auto simp: IncrNextSenderMsgSeqNum_def split: prod.splits option.splits)
  from SetNextSenderMsgSeqNum_success [OF this] c show ?thesis
    by (auto simp: NextSenderMsgSeqNum_def)
qed

lemma SaveMessageAndIncr_ok:
  assumes "faults w = {}" and "opened store"
    and "fs w (bodyFname store) = Some B"
    and "fs w (headerFname store) = Some H"
    and "fs w (senderSeqNumsFname store) = Some c"
  shows "SaveMessageAndIncrNextSenderMsgSeqNum w store n msg =
    (w\<lparr>fs := (fs w)(headerFname store \<mapsto> H @ headerLine n (int (length B)) (int (length msg)),
                   bodyFname store \<mapsto> B @ msg,
                   senderSeqNumsFname store \<mapsto>
                     fmt_019d (wrapInt (nextSender (cache store) + 1)) @
                     drop (length (fmt_019d (wrapInt (nextSender (cache store) + 1)))) c)\<rparr>,
     store\<lparr>bodyFile := Some \<lparr>Name = bodyFname store, pos = length B + length msg\<rparr>,
           headerFile := Some \<lparr>Name = headerFname store,
             pos = length H + length (headerLine n (int (length B)) (int (length msg)))\<rparr>,
           senderSeqNumsFile := Some \<lparr>Name = senderSeqNumsFname store,
             pos = length (fmt_019d (wrapInt (nextSender (cache store) + 1)))\<rparr>,
           cache := (cache store)\<lparr>nextSender := wrapInt (nextSender (cache store) + 1)\<rparr>\<rparr>,
     None)"
proof -
  let ?line = "headerLine n (int (length B)) (int (length msg))"
  let ?w1 = "w\<lparr>fs := (fs w)(headerFname store \<mapsto> H @ ?line, bodyFname store \<mapsto> B @ msg)\<rparr>"
  let ?s1 = "store\<lparr>bodyFile := Some \<lparr>Name = bodyFname store, pos = length B + length msg\<rparr>,
                   headerFile := Some \<lparr>Name = headerFname store,
                     pos = length H + length ?line\<rparr>\<rparr>"
  let ?k = "wrapInt (nextSender (cache store) + 1)"
  from assms(2) have dn: "senderSeqNumsFname store \<noteq> bodyFname store"
    "senderSeqNumsFname store \<noteq> headerFname store"
    by (auto simp: opened_def distinctNames_def)
  from assms(2) have h: "handleOf (senderSeqNumsFname store) (senderSeqNumsFile store)"
    by (simp add: opened_def)
  have sm: "SaveMessage w store n msg = (?w1, ?s1, None)"
    using assms(1-4) by (rule SaveMessage_ok)
  have sn: "SetNextSenderMsgSeqNum ?w1 ?s1 ?k =
      (?w1\<lparr>fs := (fs ?w1)(senderSeqNumsFname store \<mapsto>
                 fmt_019d ?k @ drop (length (fmt_019d ?k)) c)\<rparr>,
       ?s1\<lparr>senderSeqNumsFile :=
                    Some \<lparr>Name = senderSeqNumsFname store, pos = length (fmt_019d ?k)\<rparr>,
                  cache := (cache store)\<lparr>nextSender := ?k\<rparr>\<rparr>, None)"
    using SetNextSenderMsgSeqNum_ok [of ?w1 ?s1 c ?k] assms(1,5) h dn by simp
  show ?thesis
    using sm sn by (simp add: SaveMessageAndIncrNextSenderMsgSeqNum_def IncrNextSenderMsgSeqNum_def)
qed

lemma exStore_facts:
  "faults exWorld = {}" "opened exStore"
  "fs exWorld (bodyFname exStore) = Some []"
  "fs exWorld (headerFname exStore) = Some []"
  "fs exWorld (senderSeqNumsFname exStore) = Some ''0000000000000000001''"
  "fs exWorld (targetSeqNumsFname exStore) = Some ''0000000000000000001''"
  "NextSenderMsgSeqNum exStore = 1" "NextTargetMsgSeqNum exStore = 1"
  by (simp_all add: exWorld_def exFiles_def exStore_def opened_def distinctNames_def
      handleOf_def NextSenderMsgSeqNum_def NextTargetMsgSeqNum_def)

lemma openOrCreateFile_success:
  assumes "openOrCreateFile w nm = Inr (w', f)"
  shows "f = \<lparr>Name = nm, pos = 0\<rparr> \<and> faults w' = faults w \<and> clock w' = clock w \<and>
         fs w' = (fs w)(nm \<mapsto> (case fs w nm of None \<Rightarrow> [] | Some c \<Rightarrow> c))"
  using assms
  by (auto simp: openOrCreateFile_def fun_upd_idem split: if_splits option.splits)


lemma Close_success:
  "Close w s = (s', None) \<Longrightarrow>
     s' = s\<lparr>bodyFile := None, headerFile := None, sessionFile := None,
            senderSeqNumsFile := None, targetSeqNumsFile := None\<rparr>"
  by (auto simp: Close_def split: option.splits)

lemma setSession_success:
  assumes "setSession lib w s = (w', s', None)"
  shows "\<exists>f c data. sessionFile s = Some f \<and> fs w (Name f) = Some c \<and>
           MarshalText lib (created (cache s)) = Inr data \<and>
           w' = w\<lparr>fs := (fs w)(Name f \<mapsto> data @ drop (length data) c)\<rparr> \<and>
           s' = s\<lparr>sessionFile := Some (f\<lparr>pos := length data\<rparr>)\<rparr>"
  using assms
  by (auto simp: setSession_def File_SeekStart_def File_Write_def pwrite_start Let_def
      split: option.splits sum.splits if_splits)

lemma populateCache_absent:
  assumes "fs w (sessionFname s) = None" "fs w (senderSeqNumsFname s) = None"
    "fs w (targetSeqNumsFname s) = None"
  shows "populateCache lib w s = (s, False, None)"
  using assms by (simp add: populateCache_def ReadFile_def)

lemma populateCache_sender:
  assumes "populateCache lib w s = (s', ctp, err)"
    and "ReadFile w (senderSeqNumsFname s) = Inr bs" "Atoi (Trim bs [CHR 0x0D, CHR 0x0A]) = Some n"
  shows "err = None \<and> nextSender (cache s') = n \<and> senderSeqNumsFname s' = senderSeqNumsFname s"
  using assms
  by (auto simp: populateCache_def mem_SetNextSenderMsgSeqNum_def mem_SetNextTargetMsgSeqNum_def
      mem_SetCreationTime_def Let_def split: sum.splits option.splits prod.splits)

lemma Refresh_successE:
  assumes "Refresh lib w store = (w', store', None)"
  obtains s1 s2 ctp w1 f w2 g w3 h w4 i w5 j w6 s6 w7 s7 where
    "Close w (store\<lparr>cache := \<lparr>nextSender = 1, nextTarget = 1, created = clock w\<rparr>\<rparr>) = (s1, None)"
    "populateCache lib w s1 = (s2, ctp, None)"
    "openOrCreateFile w (bodyFname s2) = Inr (w1, f)"
    "openOrCreateFile w1 (headerFname s2) = Inr (w2, g)"
    "openOrCreateFile w2 (sessionFname s2) = Inr (w3, h)"
    "openOrCreateFile w3 (senderSeqNumsFname s2) = Inr (w4, i)"
    "openOrCreateFile w4 (targetSeqNumsFname s2) = Inr (w5, j)"
    "(if \<not> ctp
      then setSession lib w5
             (s2\<lparr>bodyFile := Some f, headerFile := Some g, sessionFile := Some h,
                  senderSeqNumsFile := Some i, targetSeqNumsFile := Some j\<rparr>)
      else (w5, s2\<lparr>bodyFile := Some f, headerFile := Some g, sessionFile := Some h,
                     senderSeqNumsFile := Some i, targetSeqNumsFile := Some j\<rparr>, None))
     = (w6, s6, None)"
    "SetNextSenderMsgSeqNum w6 s6 (NextSenderMsgSeqNum s6) = (w7, s7, None)"
    "SetNextTargetMsgSeqNum w7 s7 (NextTargetMsgSeqNum s7) = (w', store', None)"
  using assms unfolding Refresh_def mem_Reset_def
  by (simp split: prod.splits sum.splits option.splits)

lemma Refresh_fresh_success:
  assumes R: "Refresh lib w store = (w', store', None)"
    and dn: "distinctNames store" and ab: "filesAbsent w store"
  shows "cache store' = \<lparr>nextSender = 1, nextTarget = 1, created = clock w\<rparr> \<and>
         opened store' \<and> sameConfig store store' \<and>
         faults w' = faults w \<and> clock w' = clock w \<and>
         (\<exists>data. MarshalText lib (clock w) = Inr data \<and>
            fs w' = (fs w)(bodyFname store \<mapsto> [], headerFname store \<mapsto> [],
                          sessionFname store \<mapsto> data,
                          senderSeqNumsFname store \<mapsto> fmt_019d 1,
                          targetSeqNumsFname store \<mapsto> fmt_019d 1))"
proof -
  let ?c0 = "\<lparr>nextSender = 1, nextTarget = 1, created = clock w\<rparr>"
  let ?s1 = "store\<lparr>cache := ?c0, bodyFile := None, headerFile := None, sessionFile := None,
                   senderSeqNumsFile := None, targetSeqNumsFile := None\<rparr>"
  from dn have d: "bodyFname store \<noteq> headerFname store" "bodyFname store \<noteq> sessionFname store"
    "bodyFname store \<noteq> senderSeqNumsFname store" "bodyFname store \<noteq> targetSeqNumsFname store"
    "headerFname store \<noteq> sessionFname store" "headerFname store \<noteq> senderSeqNumsFname store"
    "headerFname store \<noteq> targetSeqNumsFname store"
    "sessionFname store \<noteq> senderSeqNumsFname store" "sessionFname store \<noteq> targetSeqNumsFname store"
    "senderSeqNumsFname store \<noteq> targetSeqNumsFname store"
    by (auto simp: distinctNames_def)
  from ab have a: "fs w (bodyFname store) = None" "fs w (headerFname store) = None"
    "fs w (sessionFname store) = None" "fs w (senderSeqNumsFname store) = None"
    "fs w (targetSeqNumsFname store) = None"
    by (auto simp: filesAbsent_def)
  from R obtain s1 s2 ctp w1 f w2 g w3 h w4 i w5 j w6 s6 w7 s7 where
    cl: "Close w (store\<lparr>cache := ?c0\<rparr>) = (s1, None)" and
    pc: "populateCache lib w s1 = (s2, ctp, None)" and
    o1: "openOrCreateFile w (bodyFname s2) = Inr (w1, f)" and
    o2: "openOrCreateFile w1 (headerFname s2) = Inr (w2, g)" and
    o3: "openOrCreateFile w2 (sessionFname s2) = Inr (w3, h)" and
    o4: "openOrCreateFile w3 (senderSeqNumsFname s2) = Inr (w4, i)" and
    o5: "openOrCreateFile w4 (targetSeqNumsFname s2) = Inr (w5, j)" and
    ss: "(if \<not> ctp
      then setSession lib w5
             (s2\<lparr>bodyFile := Some f, headerFile := Some g, sessionFile := Some h,
                  senderSeqNumsFile := Some i, targetSeqNumsFile := Some j\<rparr>)
      else (w5, s2\<lparr>bodyFile := Some f, headerFile := Some g, sessionFile := Some h,
                     senderSeqNumsFile := Some i, targetSeqNumsFile := Some j\<rparr>, None))
     = (w6, s6, None)" and
    n1: "SetNextSenderMsgSeqNum w6 s6 (NextSenderMsgSeqNum s6) = (w7, s7, None)" and
    n2: "SetNextTargetMsgSeqNum w7 s7 (NextTargetMsgSeqNum s7) = (w', store', None)"
    by (rule Refresh_successE)
  from Close_success [OF cl] have s1: "s1 = ?s1" by simp
  from pc s1 a have s2: "s2 = ?s1" and ctp: "ctp = False"
    using populateCache_absent [of w ?s1 lib] by simp_all
  from openOrCreateFile_success [OF o1] s2 a
  have f: "f = \<lparr>Name = bodyFname store, pos = 0\<rparr>" and w1: "faults w1 = faults w"
    "clock w1 = clock w" "fs w1 = (fs w)(bodyFname store \<mapsto> [])"
    by simp_all
  from openOrCreateFile_success [OF o2] s2 a d w1
  have g: "g = \<lparr>Name = headerFname store, pos = 0\<rparr>" and w2: "faults w2 = faults w"
    "clock w2 = clock w" "fs w2 = (fs w)(bodyFname store \<mapsto> [], headerFname store \<mapsto> [])"
    by simp_all
  from openOrCreateFile_success [OF o3] s2 a d w2
  have h: "h = \<lparr>Name = sessionFname store, pos = 0\<rparr>" and w3: "faults w3 = faults w"
    "clock w3 = clock w"
    "fs w3 = (fs w)(bodyFname store \<mapsto> [], headerFname store \<mapsto> [], sessionFname store \<mapsto> [])"
    by simp_all
  from openOrCreateFile_success [OF o4] s2 a d w3
  have i: "i = \<lparr>Name = senderSeqNumsFname store, pos = 0\<rparr>" and w4: "faults w4 = faults w"
    "clock w4 = clock w"
    "fs w4 = (fs w)(bodyFname store \<mapsto> [], headerFname store \<mapsto> [], sessionFname store \<mapsto> [],
                    senderSeqNumsFname store \<mapsto> [])"
    by simp_all
  from openOrCreateFile_success [OF o5] s2 a d w4
  have j: "j = \<lparr>Name = targetSeqNumsFname store, pos = 0\<rparr>" and w5: "faults w5 = faults w"
    "clock w5 = clock w"
    "fs w5 = (fs w)(bodyFname store \<mapsto> [], headerFname store \<mapsto> [], sessionFname store \<mapsto> [],
                    senderSeqNumsFname store \<mapsto> [], targetSeqNumsFname store \<mapsto> [])"
    by simp_all
  let ?s5 = "?s1\<lparr>bodyFile := Some f, headerFile := Some g, sessionFile := Some h,
                  senderSeqNumsFile := Some i, targetSeqNumsFile := Some j\<rparr>"
  from ss ctp s2 have ss': "setSession lib w5 ?s5 = (w6, s6, None)" by simp
  from setSession_success [OF ss'] h w5 d obtain data where
    m: "MarshalText lib (clock w) = Inr data" and
    w6: "faults w6 = faults w" "clock w6 = clock w"
    "fs w6 = (fs w)(bodyFname store \<mapsto> [], headerFname store \<mapsto> [], sessionFname store \<mapsto> data,
                    senderSeqNumsFname store \<mapsto> [], targetSeqNumsFname store \<mapsto> [])" and
    s6: "s6 = ?s5\<lparr>sessionFile := Some \<lparr>Name = sessionFname store, pos = length data\<rparr>\<rparr>"
    by (auto simp: fun_upd_twist)
  from SetNextSenderMsgSeqNum_success [OF n1] s6 i w6 d have
    w7: "faults w7 = faults w" "clock w7 = clock w"
    "fs w7 = (fs w)(bodyFname store \<mapsto> [], headerFname store \<mapsto> [], sessionFname store \<mapsto> data,
                    senderSeqNumsFname store \<mapsto> fmt_019d 1, targetSeqNumsFname store \<mapsto> [])" and
    s7: "s7 = s6\<lparr>senderSeqNumsFile :=
                     Some \<lparr>Name = senderSeqNumsFname store, pos = length (fmt_019d 1)\<rparr>\<rparr>"
    by (auto simp: NextSenderMsgSeqNum_def fun_upd_twist)
  from SetNextTargetMsgSeqNum_success [OF n2] s7 s6 j w7 d have
    w': "faults w' = faults w" "clock w' = clock w"
    "fs w' = (fs w)(bodyFname store \<mapsto> [], headerFname store \<mapsto> [], sessionFname store \<mapsto> data,
                    senderSeqNumsFname store \<mapsto> fmt_019d 1, targetSeqNumsFname store \<mapsto> fmt_019d 1)" and
    s': "store' = s7\<lparr>targetSeqNumsFile :=
                     Some \<lparr>Name = targetSeqNumsFname store, pos = length (fmt_019d 1)\<rparr>\<rparr>"
    by (auto simp: NextTargetMsgSeqNum_def)
  show ?thesis
    using s' s7 s6 f g dn m w'
    by (simp add: opened_def handleOf_def distinctNames_def sameConfig_def)
qed


lemma Refresh_fresh_ok:
  assumes nf: "faults w = {}"
    and dn: "distinctNames store" and ab: "filesAbsent w store"
    and m: "MarshalText lib (clock w) = Inr data"
  shows "snd (snd (Refresh lib w store)) = None"
proof -
  from dn have d: "bodyFname store \<noteq> headerFname store" "bodyFname store \<noteq> sessionFname store"
    "bodyFname store \<noteq> senderSeqNumsFname store" "bodyFname store \<noteq> targetSeqNumsFname store"
    "headerFname store \<noteq> sessionFname store" "headerFname store \<noteq> senderSeqNumsFname store"
    "headerFname store \<noteq> targetSeqNumsFname store"
    "sessionFname store \<noteq> senderSeqNumsFname store" "sessionFname store \<noteq> targetSeqNumsFname store"
    "senderSeqNumsFname store \<noteq> targetSeqNumsFname store"
    by (auto simp: distinctNames_def)
  from ab have a: "fs w (bodyFname store) = None" "fs w (headerFname store) = None"
    "fs w (sessionFname store) = None" "fs w (senderSeqNumsFname store) = None"
    "fs w (targetSeqNumsFname store) = None"
    by (auto simp: filesAbsent_def)
  let ?c0 = "\<lparr>nextSender = 1, nextTarget = 1, created = clock w\<rparr>"
  let ?s1 = "store\<lparr>cache := ?c0, bodyFile := None, headerFile := None, sessionFile := None,
                   senderSeqNumsFile := None, targetSeqNumsFile := None\<rparr>"
  have cl: "Close w (store\<lparr>cache := ?c0\<rparr>) = (?s1, None)"
    using nf by (simp add: Close_def closeSyncFile_def split: option.splits)
  have pc: "populateCache lib w ?s1 = (?s1, False, None)"
    using a by (intro populateCache_absent) simp_all
  show ?thesis
    using nf a d m cl pc
    by (simp add: Refresh_def mem_Reset_def openOrCreateFile_def setSession_def
        SetNextSenderMsgSeqNum_def SetNextTargetMsgSeqNum_def setSeqNum_def
        File_SeekStart_def File_Write_def File_Sync_def
        mem_SetNextSenderMsgSeqNum_def mem_SetNextTargetMsgSeqNum_def
        NextSenderMsgSeqNum_def NextTargetMsgSeqNum_def Let_def)
qed


lemma populateCache_shape:
  "\<exists>c ctp. populateCache lib w s = (s\<lparr>cache := c\<rparr>, ctp, None)"
proof -
  have "fst (populateCache lib w s) = s\<lparr>cache := cache (fst (populateCache lib w s))\<rparr> \<and>
        snd (snd (populateCache lib w s)) = None"
    by (simp add: populateCache_def mem_SetNextSenderMsgSeqNum_def mem_SetNextTargetMsgSeqNum_def
        Let_def split: sum.splits option.splits prod.splits)
  then show ?thesis by (metis prod.collapse)
qed

lemma openOrCreateFile_ok:
  assumes "faults w = {}"
  shows "openOrCreateFile w nm =
           Inr (w\<lparr>fs := (fs w)(nm \<mapsto> (case fs w nm of None \<Rightarrow> [] | Some c \<Rightarrow> c))\<rparr>,
                \<lparr>Name = nm, pos = 0\<rparr>)"
  using assms by (auto simp: openOrCreateFile_def fun_upd_idem split: option.splits)

lemma Refresh_ok:
  assumes nf: "faults w = {}" and dn: "distinctNames store"
    and m: "\<forall>t. \<exists>data. MarshalText lib t = Inr data"
  shows "snd (snd (Refresh lib w store)) = None"
proof -
  from dn have d: "bodyFname store \<noteq> headerFname store" "bodyFname store \<noteq> sessionFname store"
    "bodyFname store \<noteq> senderSeqNumsFname store" "bodyFname store \<noteq> targetSeqNumsFname store"
    "headerFname store \<noteq> sessionFname store" "headerFname store \<noteq> senderSeqNumsFname store"
    "headerFname store \<noteq> targetSeqNumsFname store"
    "sessionFname store \<noteq> senderSeqNumsFname store" "sessionFname store \<noteq> targetSeqNumsFname store"
    "senderSeqNumsFname store \<noteq> targetSeqNumsFname store"
    by (auto simp: distinctNames_def)
  let ?c0 = "\<lparr>nextSender = 1, nextTarget = 1, created = clock w\<rparr>"
  let ?s1 = "store\<lparr>cache := ?c0, bodyFile := None, headerFile := None, sessionFile := None,
                   senderSeqNumsFile := None, targetSeqNumsFile := None\<rparr>"
  have cl: "Close w (store\<lparr>cache := ?c0\<rparr>) = (?s1, None)"
    using nf by (simp add: Close_def closeSyncFile_def split: option.splits)
  obtain c ctp where pc: "populateCache lib w ?s1 = (?s1\<lparr>cache := c\<rparr>, ctp, None)"
    using populateCache_shape [of lib w ?s1] by blast
  obtain data where md: "MarshalText lib (created c) = Inr data" using m by blast
  show ?thesis
    using nf d md cl pc
    by (cases ctp)
      (simp_all add: Refresh_def mem_Reset_def openOrCreateFile_ok setSession_def
        SetNextSenderMsgSeqNum_def SetNextTargetMsgSeqNum_def setSeqNum_def
        File_SeekStart_def File_Write_def File_Sync_def
        mem_SetNextSenderMsgSeqNum_def mem_SetNextTargetMsgSeqNum_def
        NextSenderMsgSeqNum_def NextTargetMsgSeqNum_def Let_def)
qed

lemma Trim_id: "\<forall>c\<in>set s. c \<notin> set cutset \<Longrightarrow> Trim s cutset = s"
proof -
  assume a: "\<forall>c\<in>set s. c \<notin> set cutset"
  have "dropWhile (\<lambda>c. c \<in> set cutset) xs = xs" if "\<forall>c\<in>set xs. c \<notin> set cutset" for xs
    using that by (cases xs) auto
  from this [of s] this [of "rev s"] a show ?thesis by (simp add: Trim_def)
qed

lemma Atoi_fmt_019d:
  assumes "0 \<le> n" "n \<le> maxInt"
  shows "Atoi (Trim (fmt_019d n) [CHR 0x0D, CHR 0x0A]) = Some n"
proof -
  let ?ds = "zeroPad 19 (decimal (nat n))"
  have f: "fmt_019d n = ?ds" using assms by (simp add: fmt_019d_def)
  have z: "isDigit CHR ''0''" by (simp add: isDigit_def)
  have ne: "?ds \<noteq> []" by (simp add: zeroPad_def decimal_not_Nil)
  have "list_all isDigit (replicate k CHR ''0'')" for k
    using z by (induction k) simp_all
  then have dg: "list_all isDigit ?ds"
    by (simp add: zeroPad_def decimal_digits)
  have v: "int (decimalVal ?ds) = n"
    using assms by (simp add: zeroPad_def decimalVal_zeros decimalVal_decimal)
  have "c \<notin> set [CHR 0x0D, CHR 0x0A]" if "isDigit c" for c
    using that by (auto simp: isDigit_def)
  with dg have "\<forall>c\<in>set ?ds. c \<notin> set [CHR 0x0D, CHR 0x0A]"
    unfolding list_all_iff by blast
  then have tr: "Trim ?ds [CHR 0x0D, CHR 0x0A] = ?ds"
    by (rule Trim_id)
  from ParseInt_digits [OF ne dg] v assms f tr show ?thesis by (simp add: Atoi_def)
qed

lemma length_counterFileAfter:
  assumes "\<forall>v\<in>set vs. - 1000000000000000000 < v \<and> v \<le> maxInt"
  shows "length (counterFileAfter vs) \<le> 19"
proof -
  have "length (foldl (\<lambda>c v. pwrite c 0 (fmt_019d v)) c0 vs) \<le> 19"
    if "length c0 \<le> 19" "\<forall>v\<in>set vs. - 1000000000000000000 < v \<and> v \<le> maxInt" for c0
    using that
  proof (induction vs arbitrary: c0)
    case Nil
    then show ?case by simp
  next
    case (Cons v vs)
    then have "length (fmt_019d v) = 19" by (intro length_fmt_019d) auto
    with Cons.prems have "length (pwrite c0 0 (fmt_019d v)) \<le> 19"
      by (simp add: pwrite_start)
    with Cons show ?case by simp
  qed
  with assms show ?thesis by (simp add: counterFileAfter_def)
qed

lemma Refresh_success_sender:
  assumes R: "Refresh lib w store = (w', store', None)"
    and rd: "ReadFile w (senderSeqNumsFname store) = Inr bs"
    and at: "Atoi (Trim bs [CHR 0x0D, CHR 0x0A]) = Some n"
  shows "NextSenderMsgSeqNum store' = n"
proof -
  let ?c0 = "\<lparr>nextSender = 1, nextTarget = 1, created = clock w\<rparr>"
  from R obtain s1 s2 ctp w1 f w2 g w3 h w4 i w5 j w6 s6 w7 s7 where
    cl: "Close w (store\<lparr>cache := ?c0\<rparr>) = (s1, None)" and
    pc: "populateCache lib w s1 = (s2, ctp, None)" and
    ss: "(if \<not> ctp
      then setSession lib w5
             (s2\<lparr>bodyFile := Some f, headerFile := Some g, sessionFile := Some h,
                  senderSeqNumsFile := Some i, targetSeqNumsFile := Some j\<rparr>)
      else (w5, s2\<lparr>bodyFile := Some f, headerFile := Some g, sessionFile := Some h,
                     senderSeqNumsFile := Some i, targetSeqNumsFile := Some j\<rparr>, None))
     = (w6, s6, None)" and
    n1: "SetNextSenderMsgSeqNum w6 s6 (NextSenderMsgSeqNum s6) = (w7, s7, None)" and
    n2: "SetNextTargetMsgSeqNum w7 s7 (NextTargetMsgSeqNum s7) = (w', store', None)"
    by (rule Refresh_successE)
  from Close_success [OF cl] have "senderSeqNumsFname s1 = senderSeqNumsFname store" by simp
  with populateCache_sender [OF pc] rd at have 2: "nextSender (cache s2) = n" by simp
  have 6: "nextSender (cache s6) = n"
  proof (cases ctp)
    case True
    with ss 2 show ?thesis by auto
  next
    case False
    with ss have "setSession lib w5
             (s2\<lparr>bodyFile := Some f, headerFile := Some g, sessionFile := Some h,
                  senderSeqNumsFile := Some i, targetSeqNumsFile := Some j\<rparr>) = (w6, s6, None)"
      by simp
    from setSession_success [OF this] 2 show ?thesis by auto
  qed
  from SetNextSenderMsgSeqNum_success [OF n1] 6 have 7: "nextSender (cache s7) = n"
    by (auto simp: NextSenderMsgSeqNum_def)
  from SetNextTargetMsgSeqNum_success [OF n2] 7 show ?thesis
    by (auto simp: NextSenderMsgSeqNum_def)
qed

lemma newFileStore_success:
  assumes "newFileStore lib w sid dirname sync = (w', Inr store')"
  shows "Refresh lib w (storeFor lib w sid dirname sync) = (w', store', None)"
  using assms
  by (simp add: newFileStore_def storeFor_def mem_Create_def Let_def
      split: if_splits prod.splits option.splits)

lemma newFileStore_ok:
  assumes "(OpMkdir, dirname) \<notin> faults w"
    and "Refresh lib w (storeFor lib w sid dirname sync) = (w', store', None)"
  shows "newFileStore lib w sid dirname sync = (w', Inr store')"
  using assms
  by (simp add: newFileStore_def storeFor_def mem_Create_def Let_def)

lemma distinctNames_storeFor: "distinctNames (storeFor lib w sid dirname sync)"
  by (simp add: distinctNames_def storeFor_def pathJoin_def)

lemma exLib_marshal: "\<forall>t. \<exists>data. MarshalText exLib t = Inr data"
  by (simp add: exLib_def)

lemma fmt_019d_1: "fmt_019d 1 = ''0000000000000000001''"
  by code_simp

lemma fmt_019d_5: "fmt_019d 5 = ''0000000000000000005''"
  by code_simp






section \<open>The claims\<close>

text \<open>
  C1. Messages saved with strictly increasing sequence numbers into an empty log are
  replayed exactly: after the saves, which succeed when no system call fails,
  \<^verbatim>\<open>GetMessages(b, e)\<close> returns the payloads whose sequence number lies in \<open>[b, e]\<close>, in
  the order saved and byte for byte, with no error; the list is empty when none lies in
  the range, and it is the whole sequence for the range from the first to the last
  number. Sequence numbers are Go integers and the body stays below \<open>2^63\<close> bytes.
\<close>

theorem saved_messages_replayed:
  assumes "faults w = {}" and "opened store"
    and "fs w (bodyFname store) = Some []" and "fs w (headerFname store) = Some []"
    and "sorted_wrt (<) (map fst ms)"
    and "\<forall>(n, msg) \<in> set ms. isInt n"
    and "int (length (concat (map snd ms))) \<le> maxInt"
  shows "\<exists>w' store'. saveAll w store ms = (w', store', None) \<and>
           GetMessages w' store' b e
             = (w', store', map snd (filter (\<lambda>(n, msg). b \<le> n \<and> n \<le> e) ms), None) \<and>
           (ms \<noteq> [] \<longrightarrow>
              GetMessages w' store' (fst (hd ms)) (fst (last ms)) = (w', store', map snd ms, None))"
proof -
  let ?B = "concat (map snd ms)"
  let ?es = "headerOf 0 ms"
  from saveAll_ok [OF assms(1-4), of ms] obtain w' store'
    where sa: "saveAll w store ms = (w', store', None)" and f: "faults w' = {}"
      and op: "opened store'" and nb: "bodyFname store' = bodyFname store"
      and nh: "headerFname store' = headerFname store"
      and B: "fs w' (bodyFname store) = Some ?B"
      and H: "fs w' (headerFname store) = Some (headerText ?es)"
    by auto
  have ints: "\<forall>(s, off, z) \<in> set ?es. isInt s \<and> isInt off \<and> isInt z"
  proof (clarify)
    fix s off z assume "(s, off, z) \<in> set ?es"
    from headerOf_bounds [OF this] assms(6,7)
    show "isInt s \<and> isInt off \<and> isInt z"
      by (auto simp: isInt_def minInt_def maxInt_def)
  qed
  have bnd: "\<forall>(s, off, z) \<in> set ?es. b' \<le> s \<and> s \<le> e' \<longrightarrow>
               0 \<le> off \<and> 0 \<le> z \<and> nat off + nat z \<le> length ?B" for b' e'
    using headerOf_bounds [of _ _ _ 0 ms] by auto
  have gm: "GetMessages w' store' b' e' = (w', store', replay ?B b' e' ?es, None)" for b' e'
    using f op B H ints bnd [of b' e'] nb nh
    by (intro GetMessages_replay) (auto simp: opened_def)
  have rs: "replay ?B b' e' ?es = map snd (filter (\<lambda>(n, msg). b' \<le> n \<and> n \<le> e') ms)" for b' e'
    using replay_sorted [OF assms(5), of "[]" b' e'] by simp
  have all: "filter (\<lambda>(n, msg). fst (hd ms) \<le> n \<and> n \<le> fst (last ms)) ms = ms" if "ms \<noteq> []"
  proof -
    have "fst (hd ms) \<le> fst x \<and> fst x \<le> fst (last ms)" if "x \<in> set ms" for x
    proof -
      from \<open>x \<in> set ms\<close> obtain i where i: "i < length ms" "x = ms ! i"
        by (auto simp: in_set_conv_nth)
      have st: "i < j \<Longrightarrow> j < length ms \<Longrightarrow> fst (ms ! i) < fst (ms ! j)" for i j
        using assms(5) by (simp add: sorted_wrt_iff_nth_less)
      have "fst (ms ! 0) \<le> fst (ms ! i)"
        using st [of 0 i] i by (cases "i = 0") auto
      moreover have "fst (ms ! i) \<le> fst (ms ! (length ms - 1))"
      proof (cases "i = length ms - 1")
        case True
        then show ?thesis by simp
      next
        case False
        with i have "i < length ms - 1" "length ms - 1 < length ms" by linarith+
        then show ?thesis using st [of i "length ms - 1"] by simp
      qed
      ultimately show ?thesis
        using i \<open>ms \<noteq> []\<close> by (simp add: hd_conv_nth last_conv_nth)
    qed
    then show ?thesis by (auto simp: filter_id_conv)
  qed
  show ?thesis
    using sa gm rs all by auto
qed

theorem saved_messages_replayed_witness:
  "faults exWorld = {} \<and> opened exStore \<and>
   fs exWorld (bodyFname exStore) = Some [] \<and> fs exWorld (headerFname exStore) = Some [] \<and>
   (3::int) < 5 \<and> isInt 3 \<and> isInt 5 \<and> int (length (''abc'' @ ''hello'')) \<le> maxInt \<and>
   (\<exists>w' store'. saveAll exWorld exStore [(3, ''abc''), (5, ''hello'')] = (w', store', None) \<and>
      GetMessages w' store' 4 10 = (w', store', [''hello''], None) \<and>
      GetMessages w' store' 3 5 = (w', store', [''abc'', ''hello''], None))"
proof -
  have 1: "faults exWorld = {}" by (simp add: exWorld_def)
  have 2: "opened exStore"
    by (simp add: opened_def distinctNames_def handleOf_def exStore_def)
  have 3: "fs exWorld (bodyFname exStore) = Some []"
    by (simp add: exWorld_def exFiles_def exStore_def)
  have 4: "fs exWorld (headerFname exStore) = Some []"
    by (simp add: exWorld_def exFiles_def exStore_def)
  have 5: "sorted_wrt (<) (map fst [(3::int, ''abc''), (5, ''hello'')])" by simp
  have 6: "\<forall>(n, msg) \<in> set [(3::int, ''abc''), (5, ''hello'')]. isInt n"
    by (simp add: isInt_def minInt_def maxInt_def)
  have 7: "int (length (concat (map snd [(3::int, ''abc''), (5, ''hello'')]))) \<le> maxInt"
    by (simp add: maxInt_def)
  from saved_messages_replayed [OF 1 2 3 4 5 6 7, of 4 10] 1 2 3 4 6 7
  show ?thesis by (simp add: isInt_def minInt_def maxInt_def)
qed

text \<open>
  C2. After \<^verbatim>\<open>SetNextSenderMsgSeqNum(n)\<close> succeeds for a positive \<open>n\<close>, a recovery pass
  over the same files that succeeds, be it \<^verbatim>\<open>Refresh\<close> on a store of the same sender
  counter file or a new store for the same directory and session, yields
  \<^verbatim>\<open>NextSenderMsgSeqNum() = n\<close>. The counter file holds what earlier stores of positive
  values \<open>vs\<close> left, none with more decimal digits than \<open>n\<close>, and the recovery can read
  it. (The width is fixed at 19, so the proviso on the digits is never needed.)
\<close>

theorem counter_round_trip:
  assumes "SetNextSenderMsgSeqNum w store n = (w1, store1, None)"
    and "0 < n" and "n \<le> maxInt"
    and "handleOf (senderSeqNumsFname store) (senderSeqNumsFile store)"
    and "fs w (senderSeqNumsFname store) = Some (counterFileAfter vs)"
    and "\<forall>v\<in>set vs. 0 < v \<and> v \<le> maxInt \<and> length (fmt_d v) \<le> length (fmt_d n)"
    and "fs wr = fs w1" and "(OpRead, senderSeqNumsFname store) \<notin> faults wr"
  shows "(\<forall>store2 w2 store3.
            senderSeqNumsFname store2 = senderSeqNumsFname store \<and>
            Refresh lib wr store2 = (w2, store3, None) \<longrightarrow> NextSenderMsgSeqNum store3 = n) \<and>
         (\<forall>sid dirname sync w2 store3.
            pathJoin dirname (createFilenamePrefix lib sid @ ''.'' @ ''senderseqnums'')
              = senderSeqNumsFname store \<and>
            newFileStore lib wr sid dirname sync = (w2, Inr store3) \<longrightarrow>
            NextSenderMsgSeqNum store3 = n)"
proof -
  from assms(6) have "\<forall>v\<in>set vs. - 1000000000000000000 < v \<and> v \<le> maxInt" by auto
  then have lc: "length (counterFileAfter vs) \<le> 19" by (rule length_counterFileAfter)
  have ln: "length (fmt_019d n) = 19" using assms(2,3) by (intro length_fmt_019d) auto
  from assms(4) obtain p
    where "senderSeqNumsFile store = Some \<lparr>Name = senderSeqNumsFname store, pos = p\<rparr>"
    by (rule handleOfE)
  with SetNextSenderMsgSeqNum_success [OF assms(1)] assms(5) lc ln
  have "fs w1 (senderSeqNumsFname store) = Some (fmt_019d n)" by auto
  with assms(7,8) have rd: "ReadFile wr (senderSeqNumsFname store) = Inr (fmt_019d n)"
    by (simp add: ReadFile_def)
  have at: "Atoi (Trim (fmt_019d n) [CHR 0x0D, CHR 0x0A]) = Some n"
    using assms(2,3) by (intro Atoi_fmt_019d) auto
  have A: "NextSenderMsgSeqNum store3 = n"
    if "senderSeqNumsFname store2 = senderSeqNumsFname store"
      "Refresh lib wr store2 = (w2, store3, None)" for store2 w2 store3
    using Refresh_success_sender [OF that(2) _ at] rd that(1) by simp
  have B: "NextSenderMsgSeqNum store3 = n"
    if "pathJoin dirname (createFilenamePrefix lib sid @ ''.'' @ ''senderseqnums'')
              = senderSeqNumsFname store"
      "newFileStore lib wr sid dirname sync = (w2, Inr store3)" for sid dirname sync w2 store3
    using A [OF _ newFileStore_success [OF that(2)]] that(1) by (simp add: storeFor_def)
  from A B show ?thesis by blast
qed

theorem counter_round_trip_witness:
  "snd (snd (SetNextSenderMsgSeqNum exWorld exStore 5)) = None \<and>
   (0::int) < 5 \<and> 5 \<le> maxInt \<and>
   handleOf (senderSeqNumsFname exStore) (senderSeqNumsFile exStore) \<and>
   fs exWorld (senderSeqNumsFname exStore) = Some (counterFileAfter [1]) \<and>
   (0::int) < 1 \<and> 1 \<le> maxInt \<and> length (fmt_d 1) \<le> length (fmt_d 5) \<and>
   (OpRead, senderSeqNumsFname exStore)
      \<notin> faults (fst (SetNextSenderMsgSeqNum exWorld exStore 5)) \<and>
   snd (snd (Refresh exLib (fst (SetNextSenderMsgSeqNum exWorld exStore 5)) exStore)) = None \<and>
   NextSenderMsgSeqNum
     (fst (snd (Refresh exLib (fst (SetNextSenderMsgSeqNum exWorld exStore 5)) exStore))) = 5 \<and>
   (\<exists>w2 store3.
      newFileStore exLib (fst (SetNextSenderMsgSeqNum exWorld exStore 5)) ''S'' ''d'' True
        = (w2, Inr store3) \<and>
      NextSenderMsgSeqNum store3 = 5)"
proof -
  let ?S = "SetNextSenderMsgSeqNum exWorld exStore 5"
  let ?wr = "fst ?S"
  have h: "handleOf (senderSeqNumsFname exStore) (senderSeqNumsFile exStore)"
    using exStore_facts(2) by (simp add: opened_def)
  from SetNextSenderMsgSeqNum_ok [OF exStore_facts(1) h exStore_facts(5), of 5]
  have S: "?S = (?wr, fst (snd ?S), None)" and f: "faults ?wr = {}"
    using exStore_facts(1) by simp_all
  have 2: "(0::int) < 5" by simp
  have 3: "(5::int) \<le> maxInt" by (simp add: maxInt_def)
  have 5: "fs exWorld (senderSeqNumsFname exStore) = Some (counterFileAfter [1])"
    using exStore_facts(5) by (simp add: counterFileAfter_def pwrite_start fmt_019d_1)
  have l: "length (fmt_d 1) \<le> length (fmt_d 5)" by code_simp
  have 6: "\<forall>v\<in>set [1::int]. 0 < v \<and> v \<le> maxInt \<and> length (fmt_d v) \<le> length (fmt_d 5)"
    using l by (simp add: maxInt_def)
  have 8: "(OpRead, senderSeqNumsFname exStore) \<notin> faults ?wr" using f by simp
  have dn: "distinctNames exStore" using exStore_facts(2) by (simp add: opened_def)
  let ?R = "Refresh exLib ?wr exStore"
  have R: "?R = (fst ?R, fst (snd ?R), None)"
    using Refresh_ok [OF f dn exLib_marshal] by (metis prod.collapse)
  let ?st0 = "storeFor exLib ?wr ''S'' ''d'' True"
  let ?N = "Refresh exLib ?wr ?st0"
  have N: "?N = (fst ?N, fst (snd ?N), None)"
    using Refresh_ok [OF f distinctNames_storeFor exLib_marshal] by (metis prod.collapse)
  have nf: "newFileStore exLib ?wr ''S'' ''d'' True = (fst ?N, Inr (fst (snd ?N)))"
    using f N by (intro newFileStore_ok) simp_all
  have nm: "pathJoin ''d'' (createFilenamePrefix exLib ''S'' @ ''.'' @ ''senderseqnums'')
            = senderSeqNumsFname exStore"
    by (simp add: pathJoin_def exLib_def exStore_def)
  note T = counter_round_trip [OF S 2 3 h 5 6 refl 8, of exLib]
  from T R have a: "NextSenderMsgSeqNum (fst (snd ?R)) = 5" by blast
  from T nm nf have b: "NextSenderMsgSeqNum (fst (snd ?N)) = 5" by blast
  from S 2 3 h 5 l 8 R a b nf show ?thesis
    by (simp add: maxInt_def) (metis snd_conv)
qed




text \<open>
  C4 (amended). A successful \<^verbatim>\<open>SaveMessageAndIncrNextSenderMsgSeqNum(n, payload)\<close> is
  followed by \<^verbatim>\<open>NextSenderMsgSeqNum()\<close> returning the number it returned before the call
  plus one (in 64 bits), which is \<open>n + 1\<close> when that number was \<open>n\<close>; and when no
  system call fails and the log holds only entries with sequence numbers below \<open>n\<close>,
  the call succeeds and \<^verbatim>\<open>GetMessages(n, n)\<close> returns exactly \<open>[payload]\<close>. As stated for
  every \<open>n\<close> the claim fails: the increment does not look at \<open>n\<close>.
\<close>

theorem save_and_increment:
  assumes "faults w = {}" and "opened store"
    and "fs w (bodyFname store) = Some B"
    and "fs w (headerFname store) = Some (headerText es)"
    and "fs w (senderSeqNumsFname store) = Some c"
    and "\<forall>(s, off, z) \<in> set es. isInt s \<and> isInt off \<and> isInt z \<and> s < n"
    and "isInt n" and "int (length B + length msg) \<le> maxInt"
  shows "(\<forall>w1 store1. SaveMessageAndIncrNextSenderMsgSeqNum w store n msg = (w1, store1, None) \<longrightarrow>
            NextSenderMsgSeqNum store1 = wrapInt (NextSenderMsgSeqNum store + 1)) \<and>
         (\<exists>w' store'. SaveMessageAndIncrNextSenderMsgSeqNum w store n msg = (w', store', None) \<and>
            (NextSenderMsgSeqNum store = n \<and> n < maxInt \<longrightarrow> NextSenderMsgSeqNum store' = n + 1) \<and>
            GetMessages w' store' n n = (w', store', [msg], None))"
proof -
  let ?line = "headerLine n (int (length B)) (int (length msg))"
  let ?k = "wrapInt (nextSender (cache store) + 1)"
  let ?w2 = "w\<lparr>fs := (fs w)(headerFname store \<mapsto> headerText es @ ?line,
                   bodyFname store \<mapsto> B @ msg,
                   senderSeqNumsFname store \<mapsto> fmt_019d ?k @ drop (length (fmt_019d ?k)) c)\<rparr>"
  let ?s2 = "store\<lparr>bodyFile := Some \<lparr>Name = bodyFname store, pos = length B + length msg\<rparr>,
           headerFile := Some \<lparr>Name = headerFname store,
             pos = length (headerText es) + length ?line\<rparr>,
           senderSeqNumsFile := Some \<lparr>Name = senderSeqNumsFname store,
             pos = length (fmt_019d ?k)\<rparr>,
           cache := (cache store)\<lparr>nextSender := ?k\<rparr>\<rparr>"
  from assms(2) have dn: "bodyFname store \<noteq> headerFname store"
    "senderSeqNumsFname store \<noteq> bodyFname store" "senderSeqNumsFname store \<noteq> headerFname store"
    by (auto simp: opened_def distinctNames_def)
  have all: "SaveMessageAndIncrNextSenderMsgSeqNum w store n msg = (?w2, ?s2, None)"
    using assms(1-5) by (rule SaveMessageAndIncr_ok)
  have cnt: "NextSenderMsgSeqNum store = n \<and> n < maxInt \<longrightarrow> NextSenderMsgSeqNum ?s2 = n + 1"
    using assms(7) wrapInt_id [of "n + 1"]
    by (auto simp: NextSenderMsgSeqNum_def isInt_def)
  let ?es = "es @ [(n, int (length B), int (length msg))]"
  have ints: "\<forall>(s, off, z) \<in> set ?es. isInt s \<and> isInt off \<and> isInt z"
    using assms(6,7,8) by (auto simp: isInt_def minInt_def maxInt_def)
  have bnd: "\<forall>(s, off, z) \<in> set ?es. n \<le> s \<and> s \<le> n \<longrightarrow>
               0 \<le> off \<and> 0 \<le> z \<and> nat off + nat z \<le> length (B @ msg)"
    using assms(6) by auto
  have gm: "GetMessages ?w2 ?s2 n n = (?w2, ?s2, replay (B @ msg) n n ?es, None)"
  proof (rule GetMessages_replay [OF _ _ _ _ _ ints bnd])
    show "faults ?w2 = {}" using assms(1) by simp
    show "handleOf (bodyFname ?s2) (bodyFile ?s2)" by (simp add: handleOf_def)
    show "handleOf (headerFname ?s2) (headerFile ?s2)" by (simp add: handleOf_def)
    show "fs ?w2 (bodyFname ?s2) = Some (B @ msg)" using dn by simp
    show "fs ?w2 (headerFname ?s2) = Some (headerText ?es)"
      using dn by (simp add: headerText_snoc)
  qed
  have "replay (B @ msg) n n ?es = replay (B @ msg) n n [(n, int (length B), int (length msg))]"
    using assms(6) by (intro replay_skip) auto
  then have rp: "replay (B @ msg) n n ?es = [msg]" by simp
  have A: "\<forall>w1 store1. SaveMessageAndIncrNextSenderMsgSeqNum w store n msg = (w1, store1, None) \<longrightarrow>
            NextSenderMsgSeqNum store1 = wrapInt (NextSenderMsgSeqNum store + 1)"
    using SaveMessageAndIncr_counter by blast
  from A all cnt gm rp show ?thesis by (intro conjI exI [of _ ?w2] exI [of _ ?s2]) simp_all
qed

theorem save_and_increment_witness:
  "faults exWorld = {} \<and> opened exStore \<and>
   fs exWorld (bodyFname exStore) = Some [] \<and>
   fs exWorld (headerFname exStore) = Some (headerText []) \<and>
   fs exWorld (senderSeqNumsFname exStore) = Some ''0000000000000000001'' \<and>
   isInt 1 \<and> int (length ([] :: bytes) + length ''abc'') \<le> maxInt \<and>
   NextSenderMsgSeqNum exStore = 1 \<and> (1::int) < maxInt \<and>
   (\<exists>w' store'. SaveMessageAndIncrNextSenderMsgSeqNum exWorld exStore 1 ''abc'' = (w', store', None) \<and>
      NextSenderMsgSeqNum store' = 2 \<and>
      GetMessages w' store' 1 1 = (w', store', [''abc''], None))"
proof -
  have 4: "fs exWorld (headerFname exStore) = Some (headerText [])"
    using exStore_facts(4) by (simp add: headerText_def)
  have 6: "\<forall>(s, off, z) \<in> set ([] :: (int \<times> int \<times> int) list).
             isInt s \<and> isInt off \<and> isInt z \<and> s < 1" by simp
  have 7: "isInt 1" by (simp add: isInt_def minInt_def maxInt_def)
  have 8: "int (length ([] :: bytes) + length ''abc'') \<le> maxInt" by (simp add: maxInt_def)
  have 9: "(1::int) < maxInt" by (simp add: maxInt_def)
  from save_and_increment [OF exStore_facts(1,2,3) 4 exStore_facts(5) 6 7 8]
    exStore_facts 4 7 8 9
  show ?thesis by auto
qed

theorem save_and_increment_counterexample:
  "snd (snd (SaveMessageAndIncrNextSenderMsgSeqNum exWorld exStore 5 ''abc'')) = None \<and>
   NextSenderMsgSeqNum (fst (snd (SaveMessageAndIncrNextSenderMsgSeqNum exWorld exStore 5 ''abc'')))
     = 2 \<and>
   (2::int) \<noteq> 5 + 1"
proof -
  have "nextSender (cache exStore) = 1" by (simp add: exStore_def)
  then show ?thesis
    using SaveMessageAndIncr_ok [OF exStore_facts(1-5), of 5 "''abc''"]
    by (simp add: NextSenderMsgSeqNum_def wrapInt_def)
qed



text \<open>
  C6. Creating a store for a directory that holds no file (it is empty, or does not
  exist yet) succeeds when no system call fails: the next sender and target numbers are
  1, the creation time is the time of the clock, and the five files of the session (body,
  header, session, senderseqnums, targetseqnums) exist afterwards, the log empty, the
  session file with the creation time and both counter files with 1.
\<close>

theorem fresh_store_creation:
  assumes "faults w = {}"
    and "\<forall>f. fs w (pathJoin dirname f) = None"
    and "MarshalText lib (clock w) = Inr data"
  shows "\<exists>w' store. newFileStore lib w sid dirname sync = (w', Inr store) \<and>
           NextSenderMsgSeqNum store = 1 \<and> NextTargetMsgSeqNum store = 1 \<and>
           CreationTime store = clock w \<and> opened store \<and>
           bodyFname store = pathJoin dirname (createFilenamePrefix lib sid @ ''.'' @ ''body'') \<and>
           headerFname store = pathJoin dirname (createFilenamePrefix lib sid @ ''.'' @ ''header'') \<and>
           sessionFname store
             = pathJoin dirname (createFilenamePrefix lib sid @ ''.'' @ ''session'') \<and>
           senderSeqNumsFname store
             = pathJoin dirname (createFilenamePrefix lib sid @ ''.'' @ ''senderseqnums'') \<and>
           targetSeqNumsFname store
             = pathJoin dirname (createFilenamePrefix lib sid @ ''.'' @ ''targetseqnums'') \<and>
           fs w' (bodyFname store) = Some [] \<and> fs w' (headerFname store) = Some [] \<and>
           fs w' (sessionFname store) = Some data \<and>
           fs w' (senderSeqNumsFname store) = Some (fmt_019d 1) \<and>
           fs w' (targetSeqNumsFname store) = Some (fmt_019d 1)"
proof -
  let ?st0 = "storeFor lib w sid dirname sync"
  have dn: "distinctNames ?st0" by (rule distinctNames_storeFor)
  have ab: "filesAbsent w ?st0" using assms(2) by (simp add: filesAbsent_def storeFor_def)
  obtain w' store where R: "Refresh lib w ?st0 = (w', store, None)"
    using Refresh_fresh_ok [OF assms(1) dn ab assms(3)] by (metis prod.collapse)
  have nf: "newFileStore lib w sid dirname sync = (w', Inr store)"
    using assms(1) R by (intro newFileStore_ok) simp_all
  from Refresh_fresh_success [OF R dn ab] assms(3) have
    c: "cache store = \<lparr>nextSender = 1, nextTarget = 1, created = clock w\<rparr>" and
    op: "opened store" and sc: "sameConfig ?st0 store" and
    f: "fs w' = (fs w)(bodyFname ?st0 \<mapsto> [], headerFname ?st0 \<mapsto> [],
                      sessionFname ?st0 \<mapsto> data,
                      senderSeqNumsFname ?st0 \<mapsto> fmt_019d 1,
                      targetSeqNumsFname ?st0 \<mapsto> fmt_019d 1)"
    by auto
  from dn have d: "bodyFname ?st0 \<noteq> headerFname ?st0" "bodyFname ?st0 \<noteq> sessionFname ?st0"
    "bodyFname ?st0 \<noteq> senderSeqNumsFname ?st0" "bodyFname ?st0 \<noteq> targetSeqNumsFname ?st0"
    "headerFname ?st0 \<noteq> sessionFname ?st0" "headerFname ?st0 \<noteq> senderSeqNumsFname ?st0"
    "headerFname ?st0 \<noteq> targetSeqNumsFname ?st0"
    "sessionFname ?st0 \<noteq> senderSeqNumsFname ?st0" "sessionFname ?st0 \<noteq> targetSeqNumsFname ?st0"
    "senderSeqNumsFname ?st0 \<noteq> targetSeqNumsFname ?st0"
    by (auto simp: distinctNames_def)
  have names: "bodyFname store = bodyFname ?st0" "headerFname store = headerFname ?st0"
    "sessionFname store = sessionFname ?st0" "senderSeqNumsFname store = senderSeqNumsFname ?st0"
    "targetSeqNumsFname store = targetSeqNumsFname ?st0"
    using sc by (simp_all add: sameConfig_def)
  have files: "fs w' (bodyFname store) = Some []" "fs w' (headerFname store) = Some []"
    "fs w' (sessionFname store) = Some data"
    "fs w' (senderSeqNumsFname store) = Some (fmt_019d 1)"
    "fs w' (targetSeqNumsFname store) = Some (fmt_019d 1)"
    using f d names by simp_all
  have n0: "bodyFname ?st0 = pathJoin dirname (createFilenamePrefix lib sid @ ''.'' @ ''body'')"
    "headerFname ?st0 = pathJoin dirname (createFilenamePrefix lib sid @ ''.'' @ ''header'')"
    "sessionFname ?st0 = pathJoin dirname (createFilenamePrefix lib sid @ ''.'' @ ''session'')"
    "senderSeqNumsFname ?st0
       = pathJoin dirname (createFilenamePrefix lib sid @ ''.'' @ ''senderseqnums'')"
    "targetSeqNumsFname ?st0
       = pathJoin dirname (createFilenamePrefix lib sid @ ''.'' @ ''targetseqnums'')"
    by (simp_all add: storeFor_def)
  show ?thesis
    using nf c op files names n0
    by (intro exI [of _ w'] exI [of _ store])
      (simp add: NextSenderMsgSeqNum_def NextTargetMsgSeqNum_def CreationTime_def)
qed

theorem fresh_store_creation_witness:
  "faults exEmpty = {} \<and> MarshalText exLib (clock exEmpty) = Inr ''7'' \<and>
   (\<exists>w' store. newFileStore exLib exEmpty ''S'' ''d'' True = (w', Inr store) \<and>
      NextSenderMsgSeqNum store = 1 \<and> NextTargetMsgSeqNum store = 1 \<and>
      CreationTime store = 7 \<and> opened store \<and>
      fs w' ''d/S.body'' = Some [] \<and> fs w' ''d/S.header'' = Some [] \<and>
      fs w' ''d/S.session'' = Some ''7'' \<and>
      fs w' ''d/S.senderseqnums'' = Some ''0000000000000000001'' \<and>
      fs w' ''d/S.targetseqnums'' = Some ''0000000000000000001'')"
proof -
  have 1: "faults exEmpty = {}" by (simp add: exEmpty_def)
  have 2: "\<forall>f. fs exEmpty (pathJoin ''d'' f) = None" by (simp add: exEmpty_def)
  have "fmt_d 7 = ''7''" by code_simp
  then have 3: "MarshalText exLib (clock exEmpty) = Inr ''7''"
    by (simp add: exLib_def exEmpty_def)
  have p: "createFilenamePrefix exLib ''S'' = ''S''" by (simp add: exLib_def)
  have c: "clock exEmpty = 7" by (simp add: exEmpty_def)
  from fresh_store_creation [OF 1 2 3, of "''S''" True] 1 3
  show ?thesis
    by (simp add: p c pathJoin_def fmt_019d_1) metis
qed

text \<open>
  C7. \<^verbatim>\<open>SetCreationTime(t)\<close> changes nothing: the world and the store, cache included,
  are as before the call, so \<^verbatim>\<open>CreationTime()\<close> returns what it returned before.
\<close>

theorem SetCreationTime_is_noop:
  "SetCreationTime w store t = (w, store) \<and>
   CreationTime (snd (SetCreationTime w store t)) = CreationTime store"
  by (simp add: SetCreationTime_def)

text \<open>
  C8 (amended). For every \<open>n\<close> above \<open>-10^18\<close> (so for every sequence number
  \<open>n \<ge> 0\<close>), a successful \<^verbatim>\<open>SetNextSenderMsgSeqNum(n)\<close> or \<^verbatim>\<open>SetNextTargetMsgSeqNum(n)\<close>
  overwrites the first 19 bytes of its counter file with the 19-character zero-padded
  decimal text of \<open>n\<close>, which holds no newline, and leaves the bytes after them in
  place. As stated for every \<open>n\<close> the claim fails: \<^verbatim>\<open>%019d\<close> is a minimum width, and
  \<open>n = -10^18\<close> is written as 20 characters.
\<close>

theorem counter_file_format:
  assumes "- 1000000000000000000 < n" "n \<le> maxInt"
  shows "(SetNextSenderMsgSeqNum w store n = (w', store', None) \<longrightarrow>
            (\<exists>f c. senderSeqNumsFile store = Some f \<and> fs w (Name f) = Some c \<and>
                    fs w' = (fs w)(Name f \<mapsto> fmt_019d n @ drop 19 c))) \<and>
         (SetNextTargetMsgSeqNum w store n = (w', store', None) \<longrightarrow>
            (\<exists>f c. targetSeqNumsFile store = Some f \<and> fs w (Name f) = Some c \<and>
                    fs w' = (fs w)(Name f \<mapsto> fmt_019d n @ drop 19 c))) \<and>
         length (fmt_019d n) = 19 \<and> CHR 0x0A \<notin> set (fmt_019d n) \<and>
         (0 \<le> n \<longrightarrow> fmt_019d n = replicate (19 - length (fmt_d n)) CHR ''0'' @ fmt_d n)"
proof -
  have l: "length (fmt_019d n) = 19" using assms by (rule length_fmt_019d)
  have nl: "CHR 0x0A \<notin> set (fmt_019d n)"
    using fmt_019d_chars [of "CHR 0x0A" n] by (auto simp: isDigit_def)
  have z: "0 \<le> n \<longrightarrow> fmt_019d n = replicate (19 - length (fmt_d n)) CHR ''0'' @ fmt_d n"
    by (simp add: fmt_019d_def fmt_d_def zeroPad_def)
  have s: "\<exists>f c. senderSeqNumsFile store = Some f \<and> fs w (Name f) = Some c \<and>
                    fs w' = (fs w)(Name f \<mapsto> fmt_019d n @ drop 19 c)"
    if "SetNextSenderMsgSeqNum w store n = (w', store', None)"
    using SetNextSenderMsgSeqNum_success [OF that] l by auto
  have t: "\<exists>f c. targetSeqNumsFile store = Some f \<and> fs w (Name f) = Some c \<and>
                    fs w' = (fs w)(Name f \<mapsto> fmt_019d n @ drop 19 c)"
    if "SetNextTargetMsgSeqNum w store n = (w', store', None)"
    using SetNextTargetMsgSeqNum_success [OF that] l by auto
  from l nl z s t show ?thesis by blast
qed

theorem counter_file_format_witness:
  "- 1000000000000000000 < (5::int) \<and> 5 \<le> maxInt \<and>
   snd (snd (SetNextSenderMsgSeqNum exWorld exStore 5)) = None \<and>
   fs (fst (SetNextSenderMsgSeqNum exWorld exStore 5)) ''d/S.senderseqnums''
     = Some ''0000000000000000005'' \<and>
   snd (snd (SetNextTargetMsgSeqNum exWorld exStore 5)) = None \<and>
   fs (fst (SetNextTargetMsgSeqNum exWorld exStore 5)) ''d/S.targetseqnums''
     = Some ''0000000000000000005'' \<and>
   length (fmt_019d 5) = 19 \<and> CHR 0x0A \<notin> set (fmt_019d 5) \<and>
   fmt_019d 5 = replicate (19 - length (fmt_d 5)) CHR ''0'' @ fmt_d 5"
proof -
  let ?S = "SetNextSenderMsgSeqNum exWorld exStore 5"
  let ?T = "SetNextTargetMsgSeqNum exWorld exStore 5"
  have 1: "- 1000000000000000000 < (5::int)" by simp
  have 2: "(5::int) \<le> maxInt" by (simp add: maxInt_def)
  have f: "fmt_019d 5 = ''0000000000000000005''"
    by code_simp
  have s: "snd (snd ?S) = None"
    by (simp add: SetNextSenderMsgSeqNum_def setSeqNum_def File_SeekStart_def File_Write_def
        File_Sync_def mem_SetNextSenderMsgSeqNum_def exWorld_def exStore_def exFiles_def)
  have t: "snd (snd ?T) = None"
    by (simp add: SetNextTargetMsgSeqNum_def setSeqNum_def File_SeekStart_def File_Write_def
        File_Sync_def mem_SetNextTargetMsgSeqNum_def exWorld_def exStore_def exFiles_def)
  have s': "?S = (fst ?S, fst (snd ?S), None)" using s by (metis prod.collapse)
  have t': "?T = (fst ?T, fst (snd ?T), None)" using t by (metis prod.collapse)
  have e: "senderSeqNumsFile exStore = Some \<lparr>Name = ''d/S.senderseqnums'', pos = 19\<rparr>"
    "targetSeqNumsFile exStore = Some \<lparr>Name = ''d/S.targetseqnums'', pos = 19\<rparr>"
    "fs exWorld ''d/S.senderseqnums'' = Some ''0000000000000000001''"
    "fs exWorld ''d/S.targetseqnums'' = Some ''0000000000000000001''"
    by (simp_all add: exStore_def exWorld_def exFiles_def)
  note S = counter_file_format [OF 1 2, of exWorld exStore "fst ?S" "fst (snd ?S)"]
  note T = counter_file_format [OF 1 2, of exWorld exStore "fst ?T" "fst (snd ?T)"]
  from S s' obtain f1 c1 where "senderSeqNumsFile exStore = Some f1"
    "fs exWorld (Name f1) = Some c1"
    "fs (fst ?S) = (fs exWorld)(Name f1 \<mapsto> fmt_019d 5 @ drop 19 c1)"
    by metis
  with e f have a: "fs (fst ?S) ''d/S.senderseqnums'' = Some ''0000000000000000005''"
    by auto
  from T t' obtain f2 c2 where "targetSeqNumsFile exStore = Some f2"
    "fs exWorld (Name f2) = Some c2"
    "fs (fst ?T) = (fs exWorld)(Name f2 \<mapsto> fmt_019d 5 @ drop 19 c2)"
    by metis
  with e f have b: "fs (fst ?T) ''d/S.targetseqnums'' = Some ''0000000000000000005''"
    by auto
  from S have l: "length (fmt_019d 5) = 19" "CHR 0x0A \<notin> set (fmt_019d 5)"
    "fmt_019d 5 = replicate (19 - length (fmt_d 5)) CHR ''0'' @ fmt_d 5"
    by auto
  from 1 2 s t a b l show ?thesis by simp
qed

theorem counter_file_format_counterexample:
  "snd (snd (SetNextSenderMsgSeqNum exWorld exStore (- 1000000000000000000))) = None \<and>
   fs (fst (SetNextSenderMsgSeqNum exWorld exStore (- 1000000000000000000))) ''d/S.senderseqnums''
     = Some ''-1000000000000000000'' \<and>
   length ''-1000000000000000000'' = 20"
  by (simp add: SetNextSenderMsgSeqNum_def setSeqNum_def File_SeekStart_def File_Write_def
      File_Sync_def mem_SetNextSenderMsgSeqNum_def exWorld_def exStore_def exFiles_def
      fmt_019d_def zeroPad_def decimal_e18 pwrite_def)

text \<open>
  C9. \<^verbatim>\<open>SetNextSenderMsgSeqNum(n)\<close> and \<^verbatim>\<open>SetNextTargetMsgSeqNum(n)\<close> write the counter
  file before they update the cache: whenever the call returns an error the cached
  numbers and creation time are unchanged, and a failing write of the counter file makes
  the call return an error, with nothing written.
\<close>

theorem failed_counter_write_keeps_cache:
  assumes "SetNextSenderMsgSeqNum w store n = (w1, store1, err1)"
    and "SetNextTargetMsgSeqNum w store n = (w2, store2, err2)"
  shows "(err1 \<noteq> None \<longrightarrow> sameSeqState store store1) \<and>
         (err2 \<noteq> None \<longrightarrow> sameSeqState store store2) \<and>
         (\<forall>f. senderSeqNumsFile store = Some f \<and> (OpWrite, Name f) \<in> faults w \<longrightarrow>
              err1 \<noteq> None \<and> w1 = w) \<and>
         (\<forall>f. targetSeqNumsFile store = Some f \<and> (OpWrite, Name f) \<in> faults w \<longrightarrow>
              err2 \<noteq> None \<and> w2 = w)"
proof -
  have 1: "err1 \<noteq> None \<longrightarrow> sameSeqState store store1"
    using assms(1)
    by (auto simp: SetNextSenderMsgSeqNum_def sameSeqState_def NextSenderMsgSeqNum_def
        NextTargetMsgSeqNum_def CreationTime_def mem_SetNextSenderMsgSeqNum_def
        split: prod.splits option.splits)
  have 2: "err2 \<noteq> None \<longrightarrow> sameSeqState store store2"
    using assms(2)
    by (auto simp: SetNextTargetMsgSeqNum_def sameSeqState_def NextSenderMsgSeqNum_def
        NextTargetMsgSeqNum_def CreationTime_def mem_SetNextTargetMsgSeqNum_def
        split: prod.splits option.splits)
  have 3: "err1 \<noteq> None \<and> w1 = w" if "senderSeqNumsFile store = Some f" "(OpWrite, Name f) \<in> faults w" for f
    using setSeqNum_write_fault [OF that(2), of store n] that(1) assms(1)
    by (auto simp: SetNextSenderMsgSeqNum_def)
  have 4: "err2 \<noteq> None \<and> w2 = w" if "targetSeqNumsFile store = Some f" "(OpWrite, Name f) \<in> faults w" for f
    using setSeqNum_write_fault [OF that(2), of store n] that(1) assms(2)
    by (auto simp: SetNextTargetMsgSeqNum_def)
  from 1 2 3 4 show ?thesis by auto
qed

theorem failed_counter_write_keeps_cache_witness:
  "senderSeqNumsFile exStore = Some \<lparr>Name = ''d/S.senderseqnums'', pos = 19\<rparr> \<and>
   (OpWrite, ''d/S.senderseqnums'') \<in> faults exFaulty \<and>
   snd (snd (SetNextSenderMsgSeqNum exFaulty exStore 5)) \<noteq> None \<and>
   fst (SetNextSenderMsgSeqNum exFaulty exStore 5) = exFaulty \<and>
   sameSeqState exStore (fst (snd (SetNextSenderMsgSeqNum exFaulty exStore 5))) \<and>
   targetSeqNumsFile exStore = Some \<lparr>Name = ''d/S.targetseqnums'', pos = 19\<rparr> \<and>
   (OpWrite, ''d/S.targetseqnums'') \<in> faults exFaulty \<and>
   snd (snd (SetNextTargetMsgSeqNum exFaulty exStore 5)) \<noteq> None \<and>
   fst (SetNextTargetMsgSeqNum exFaulty exStore 5) = exFaulty \<and>
   sameSeqState exStore (fst (snd (SetNextTargetMsgSeqNum exFaulty exStore 5)))"
proof -
  have 1: "senderSeqNumsFile exStore = Some \<lparr>Name = ''d/S.senderseqnums'', pos = 19\<rparr>"
    by (simp add: exStore_def)
  have 2: "(OpWrite, Name \<lparr>Name = ''d/S.senderseqnums'', pos = 19\<rparr>) \<in> faults exFaulty"
    by (simp add: exFaulty_def)
  have 3: "targetSeqNumsFile exStore = Some \<lparr>Name = ''d/S.targetseqnums'', pos = 19\<rparr>"
    by (simp add: exStore_def)
  have 4: "(OpWrite, Name \<lparr>Name = ''d/S.targetseqnums'', pos = 19\<rparr>) \<in> faults exFaulty"
    by (simp add: exFaulty_def)
  have 5: "SetNextSenderMsgSeqNum exFaulty exStore 5 =
      (fst (SetNextSenderMsgSeqNum exFaulty exStore 5),
       fst (snd (SetNextSenderMsgSeqNum exFaulty exStore 5)),
       snd (snd (SetNextSenderMsgSeqNum exFaulty exStore 5)))" by simp
  have 6: "SetNextTargetMsgSeqNum exFaulty exStore 5 =
      (fst (SetNextTargetMsgSeqNum exFaulty exStore 5),
       fst (snd (SetNextTargetMsgSeqNum exFaulty exStore 5)),
       snd (snd (SetNextTargetMsgSeqNum exFaulty exStore 5)))" by simp
  from failed_counter_write_keeps_cache [OF 5 6] 1 2 3 4
  show ?thesis by auto
qed

text \<open>
  C10. \<^verbatim>\<open>SaveMessage\<close>, \<^verbatim>\<open>IterateMessages\<close> and \<^verbatim>\<open>GetMessages\<close> leave the next sender
  number, the next target number and the creation time as they were, whether the call
  succeeds or fails. (The callback of \<^verbatim>\<open>IterateMessages\<close> works on a state of its own.)
\<close>

theorem log_operations_keep_counters:
  "sameSeqState store (fst (snd (SaveMessage w store n msg))) \<and>
   sameSeqState store (fst (snd (IterateMessages w store b e cb acc))) \<and>
   sameSeqState store (fst (snd (GetMessages w store b e)))"
  by (simp add: sameSeqState_def NextSenderMsgSeqNum_def NextTargetMsgSeqNum_def
      CreationTime_def SaveMessage_cache IterateMessages_store GetMessages_def)

end
